(* ===== verification/Prelude.thy ===== *)
theory Prelude
  imports Main "HOL-Library.Word" "HOL-Library.Sublist"
begin

section \<open>Prelude: types, C strings and automation shared by the components\<close>

text \<open>
  What every component of the development uses: names for the machine integers of the C++
  sources, the view a \<^verbatim>\<open>const char*\<close> consumer has of a \<^verbatim>\<open>std::string\<close>, the error codes of
  the \<^verbatim>\<open>asio\<close> calls the programs test for, and the collections of simplification rules
  that carry the component proofs:
  \<^item> \<open>step_defs\<close>: the definitions of a component's operations and handlers;
  \<^item> \<open>inv_defs\<close>: the definitions of invariants and environment contracts.
\<close>

named_theorems step_defs "definitions of the operations and handlers of a component"
named_theorems inv_defs "definitions of invariants and contracts"

type_synonym u8 = "8 word"
type_synonym u16 = "16 word"
type_synonym u32 = "32 word"

lemma unat_minus_1_u32: "unat (- 1 :: u32) = 4294967295"
proof -
  have "(- 1 :: u32) = word_of_nat 4294967295" by simp
  then show ?thesis by (simp only: unat_of_nat) simp
qed

lemma unat_u8: "unat (b :: u8) < 256"
  using unsigned_less [of b, where ?'a = nat] by simp

subsection \<open>Strings\<close>

text \<open>
  A \<^verbatim>\<open>std::string\<close> is a list of characters and may hold NUL characters. A function that takes
  \<^verbatim>\<open>s.c_str()\<close> and no length reads up to the first NUL only.
\<close>

abbreviation NUL :: char where "NUL \<equiv> CHR 0x00"
abbreviation CR :: char where "CR \<equiv> CHR 0x0D"
abbreviation LF :: char where "LF \<equiv> CHR 0x0A"
abbreviation crlf :: string where "crlf \<equiv> [CR, LF]"

definition c_str :: "string \<Rightarrow> string" where
  "c_str s = takeWhile (\<lambda>c. c \<noteq> NUL) s"

lemma c_str_Nil [simp]: "c_str [] = []"
  by (simp add: c_str_def)

lemma c_str_Cons [simp]: "c_str (c # s) = (if c = NUL then [] else c # c_str s)"
  by (simp add: c_str_def)

lemma c_str_no_nul [simp]: "NUL \<notin> set (c_str s)"
  by (induction s) auto

lemma c_str_id: "NUL \<notin> set s \<Longrightarrow> c_str s = s"
  by (induction s) auto

lemma c_str_append_nul: "NUL \<notin> set s \<Longrightarrow> c_str (s @ NUL # r) = s"
  by (induction s) auto

lemma c_str_idem [simp]: "c_str (c_str s) = c_str s"
  by (simp add: c_str_id)

lemma c_str_prefix: "prefix (c_str s) s"
  unfolding c_str_def by (rule takeWhile_is_prefix)

lemma length_c_str_le: "length (c_str s) \<le> length s"
  by (simp add: c_str_prefix prefix_length_le)

lemma c_str_append: "c_str (s @ t) = (if NUL \<in> set s then c_str s else s @ c_str t)"
  by (induction s) auto

lemma c_str_eq_iff: "c_str s = s \<longleftrightarrow> NUL \<notin> set s"
  by (metis c_str_id c_str_no_nul)

subsection \<open>Error codes of the asio calls\<close>

text \<open>
  The values of \<^verbatim>\<open>std::error_code\<close> that the programs tell apart. \<^verbatim>\<open>!ec\<close> holds for \<open>Success\<close> only;
  \<open>Other n\<close> stands for every error code the programs do not test for by name.
\<close>

datatype error_code = Success | Would_block | Eof | Other nat

definition failed :: "error_code \<Rightarrow> bool" where
  "failed ec \<longleftrightarrow> ec \<noteq> Success"

lemma failed_simps [simp]:
  "\<not> failed Success" "failed Would_block" "failed Eof" "failed (Other n)"
  by (simp_all add: failed_def)

lemma not_failed_iff: "\<not> failed ec \<longleftrightarrow> ec = Success"
  by (simp add: failed_def)

subsection \<open>Lists\<close>

lemma take_drop_append: "take n xs @ drop n xs = xs"
  by simp

lemma list_all_update:
  assumes "list_all P xs" and "P x"
  shows "list_all P (xs[i := x])"
  using assms by (auto simp: list_all_iff dest!: subsetD [OF set_update_subset_insert])

lemma list_all_nthD: "list_all P xs \<Longrightarrow> i < length xs \<Longrightarrow> P (xs ! i)"
  by (simp add: list_all_length)

end
