(* ===== verification/Event_Machine.thy ===== *)
theory Event_Machine
  imports Prelude
begin

section \<open>Event-driven components\<close>

text \<open>
  The network programs are event driven: a component holds a state, and the library runs one
  of its handlers at a time. A component is modelled by a total step function, and what the
  library promises of the event that comes next (only a handler that was registered runs, a
  call never transfers more bytes than the buffer holds) is a predicate on the state and
  the event. The locales below state what a component has to provide, and prove the facts about
  whole runs once.
\<close>

fun run_events :: "('s \<Rightarrow> 'e \<Rightarrow> 's) \<Rightarrow> 's \<Rightarrow> 'e list \<Rightarrow> 's" where
  "run_events step s [] = s"
| "run_events step s (e # es) = run_events step (step s e) es"

fun legal_events :: "('s \<Rightarrow> 'e \<Rightarrow> bool) \<Rightarrow> ('s \<Rightarrow> 'e \<Rightarrow> 's) \<Rightarrow> 's \<Rightarrow> 'e list \<Rightarrow> bool" where
  "legal_events ok step s [] = True"
| "legal_events ok step s (e # es) = (ok s e \<and> legal_events ok step (step s e) es)"

lemma run_events_append:
  "run_events step s (es @ fs) = run_events step (run_events step s es) fs"
  by (induction es arbitrary: s) auto

lemma legal_events_append:
  "legal_events ok step s (es @ fs) \<longleftrightarrow>
     legal_events ok step s es \<and> legal_events ok step (run_events step s es) fs"
  by (induction es arbitrary: s) auto

subsection \<open>A component with an invariant\<close>

locale event_machine =
  fixes step :: "'s \<Rightarrow> 'e \<Rightarrow> 's"
    and ok :: "'s \<Rightarrow> 'e \<Rightarrow> bool"
    and inv :: "'s \<Rightarrow> bool"
  assumes step_inv: "inv s \<Longrightarrow> ok s e \<Longrightarrow> inv (step s e)"
begin

lemma run_inv: "inv s \<Longrightarrow> legal_events ok step s es \<Longrightarrow> inv (run_events step s es)"
  by (induction es arbitrary: s) (auto intro: step_inv)

lemma run_unchanged:
  assumes "\<And>s e. inv s \<Longrightarrow> ok s e \<Longrightarrow> f (step s e) = f s"
    and "inv s" and "legal_events ok step s es"
  shows "f (run_events step s es) = f s"
  using assms(2,3) by (induction es arbitrary: s) (auto simp: assms(1) step_inv)

lemma run_stays:
  assumes "\<And>s e. inv s \<Longrightarrow> ok s e \<Longrightarrow> P s \<Longrightarrow> P (step s e)"
    and "inv s" and "legal_events ok step s es" and "P s"
  shows "P (run_events step s es)"
  using assms(2-4) by (induction es arbitrary: s) (auto intro: assms(1) step_inv)

end

subsection \<open>A component that implements an abstract machine\<close>

locale refined_machine = event_machine step ok inv
  for step :: "'s \<Rightarrow> 'e \<Rightarrow> 's" and ok :: "'s \<Rightarrow> 'e \<Rightarrow> bool" and inv :: "'s \<Rightarrow> bool" +
  fixes abs :: "'s \<Rightarrow> 'a"
    and astep :: "'a \<Rightarrow> 'b \<Rightarrow> 'a"
    and aevent :: "'e \<Rightarrow> 'b"
  assumes step_abs: "inv s \<Longrightarrow> ok s e \<Longrightarrow> abs (step s e) = astep (abs s) (aevent e)"
begin

lemma run_abs:
  "inv s \<Longrightarrow> legal_events ok step s es \<Longrightarrow>
     abs (run_events step s es) = run_events astep (abs s) (map aevent es)"
  by (induction es arbitrary: s) (auto simp: step_abs step_inv)

end

subsection \<open>A component whose events run out\<close>

locale bounded_machine = event_machine step ok inv
  for step :: "'s \<Rightarrow> 'e \<Rightarrow> 's" and ok :: "'s \<Rightarrow> 'e \<Rightarrow> bool" and inv :: "'s \<Rightarrow> bool" +
  fixes work :: "'s \<Rightarrow> nat"
  assumes step_work: "inv s \<Longrightarrow> ok s e \<Longrightarrow> work (step s e) < work s"
begin

lemma run_bounded:
  "inv s \<Longrightarrow> legal_events ok step s es \<Longrightarrow>
     length es + work (run_events step s es) \<le> work s"
proof (induction es arbitrary: s)
  case Nil
  then show ?case by simp
next
  case (Cons e es)
  then have "length es + work (run_events step (step s e) es) \<le> work (step s e)"
    by (simp add: step_inv)
  moreover have "work (step s e) < work s" using Cons.prems by (simp add: step_work)
  ultimately show ?case by simp
qed

text \<open>Every legal run goes on to one after which nothing is possible any more.\<close>

lemma run_completes:
  "inv s \<Longrightarrow> \<exists>es. legal_events ok step s es \<and> (\<nexists>e. ok (run_events step s es) e)"
proof (induction "work s" arbitrary: s rule: less_induct)
  case less
  show ?case
  proof (cases "\<exists>e. ok s e")
    case True
    then obtain e where e: "ok s e" by blast
    then obtain es where "legal_events ok step (step s e) es"
        "\<nexists>f. ok (run_events step (step s e) es) f"
      using less.hyps [OF step_work [OF less.prems e] step_inv [OF less.prems e]] by blast
    with e show ?thesis by (intro exI [of _ "e # es"]) simp
  next
    case False
    then show ?thesis by (intro exI [of _ "[]"]) simp
  qed
qed

end

end
