(* ===== verification/Cpp_Std.thy ===== *)
theory Cpp_Std
  imports Prelude
begin

section \<open>The parts of the C++ standard library that the programs use\<close>

text \<open>
  Decimal output of unsigned integers (\<^verbatim>\<open>std::to_string\<close>, \<^verbatim>\<open>operator<<\<close>), \<^verbatim>\<open>std::atoi\<close>,
  the character classes of \<^verbatim>\<open>isspace\<close> and \<^verbatim>\<open>isdigit\<close> in the \<^verbatim>\<open>C\<close> locale, and splitting a
  string at a separator. The definitions are executable, and the lemmas are the laws the
  component proofs use.
\<close>

subsection \<open>Characters\<close>

definition is_space :: "char \<Rightarrow> bool" where
  "is_space c \<longleftrightarrow> c \<in> {CHR 0x20, CHR 0x09, CHR 0x0A, CHR 0x0B, CHR 0x0C, CHR 0x0D}"

definition is_digit :: "char \<Rightarrow> bool" where
  "is_digit c \<longleftrightarrow> 48 \<le> (of_char c :: nat) \<and> (of_char c :: nat) \<le> 57"

definition digit_char :: "nat \<Rightarrow> char" where
  "digit_char d = char_of (48 + d)"

definition digit_value :: "char \<Rightarrow> nat" where
  "digit_value c = of_char c - 48"

lemma digit_chars [simp]:
  "digit_char 0 = CHR ''0''" "digit_char (Suc 0) = CHR ''1''" "digit_char 1 = CHR ''1''"
  "digit_char 2 = CHR ''2''" "digit_char 3 = CHR ''3''" "digit_char 4 = CHR ''4''"
  "digit_char 5 = CHR ''5''" "digit_char 6 = CHR ''6''" "digit_char 7 = CHR ''7''"
  "digit_char 8 = CHR ''8''" "digit_char 9 = CHR ''9''"
  by (simp_all add: digit_char_def char_of_def bit_0)

lemma of_char_digit_char [simp]: "d < 10 \<Longrightarrow> of_char (digit_char d) = (48 + d :: nat)"
  by (simp add: digit_char_def)

lemma is_digit_digit_char [simp]: "d < 10 \<Longrightarrow> is_digit (digit_char d)"
  by (simp add: is_digit_def)

lemma digit_value_digit_char [simp]: "d < 10 \<Longrightarrow> digit_value (digit_char d) = d"
  by (simp add: digit_value_def)

lemma digit_not_space: "is_digit c \<Longrightarrow> \<not> is_space c"
  by (auto simp: is_digit_def is_space_def)

lemma digit_neq:
  assumes "is_digit c"
  shows "c \<noteq> NUL" "c \<noteq> CR" "c \<noteq> LF" "c \<noteq> CHR ''-''" "c \<noteq> CHR ''+''" "c \<noteq> CHR '' ''"
  using assms by (auto simp: is_digit_def)

subsection \<open>Decimal numbers\<close>

fun dec_of_nat :: "nat \<Rightarrow> string" where
  "dec_of_nat n =
     (if n < 10 then [digit_char n] else dec_of_nat (n div 10) @ [digit_char (n mod 10)])"

declare dec_of_nat.simps [simp del]

definition nat_of_dec :: "string \<Rightarrow> nat" where
  "nat_of_dec s = foldl (\<lambda>a c. 10 * a + digit_value c) 0 s"

lemma dec_of_nat_small: "n < 10 \<Longrightarrow> dec_of_nat n = [digit_char n]"
  by (simp add: dec_of_nat.simps)

lemma dec_of_nat_nonempty [simp]: "dec_of_nat n \<noteq> []"
  by (subst dec_of_nat.simps) simp

lemma dec_of_nat_digits: "c \<in> set (dec_of_nat n) \<Longrightarrow> is_digit c"
proof (induction n rule: dec_of_nat.induct)
  case (1 n)
  then show ?case by (cases "n < 10") (auto simp: dec_of_nat.simps [of n])
qed

lemma nat_of_dec_snoc: "nat_of_dec (s @ [c]) = 10 * nat_of_dec s + digit_value c"
  by (simp add: nat_of_dec_def)

lemma nat_of_dec_of_nat [simp]: "nat_of_dec (dec_of_nat n) = n"
proof (induction n rule: dec_of_nat.induct)
  case (1 n)
  show ?case
  proof (cases "n < 10")
    case True
    then show ?thesis by (simp add: dec_of_nat_small nat_of_dec_def)
  next
    case False
    with 1 show ?thesis by (simp add: dec_of_nat.simps [of n] nat_of_dec_snoc)
  qed
qed

lemma dec_of_nat_inject [simp]: "dec_of_nat m = dec_of_nat n \<longleftrightarrow> m = n"
  by (metis nat_of_dec_of_nat)

lemma takeWhile_dec:
  "\<not> is_digit c \<Longrightarrow> takeWhile is_digit (dec_of_nat n @ c # s) = dec_of_nat n"
  using takeWhile_append2 [of "dec_of_nat n" is_digit "c # s"] dec_of_nat_digits by simp

lemma takeWhile_dec_end [simp]: "takeWhile is_digit (dec_of_nat n) = dec_of_nat n"
  using dec_of_nat_digits by (simp add: takeWhile_eq_all_conv)

subsection \<open>atoi\<close>

text \<open>
  White space, an optional sign, digits; the rest is ignored. A value outside the range of a
  32-bit \<^verbatim>\<open>int\<close> is undefined behaviour, here \<open>None\<close>.
\<close>

fun split_sign :: "string \<Rightarrow> bool \<times> string" where
  "split_sign (CHR ''-'' # s) = (True, s)"
| "split_sign (CHR ''+'' # s) = (False, s)"
| "split_sign s = (False, s)"

definition atoi :: "string \<Rightarrow> int option" where
  "atoi s =
     (case split_sign (dropWhile is_space s) of (neg, t) \<Rightarrow>
        let v = int (nat_of_dec (takeWhile is_digit t)); w = (if neg then - v else v)
        in if - (2 ^ 31) \<le> w \<and> w < 2 ^ 31 then Some w else None)"

lemma split_sign_digit: "is_digit c \<Longrightarrow> split_sign (c # s) = (False, c # s)"
  using digit_neq [of c] by (cases "(c # s)" rule: split_sign.cases) auto

lemma atoi_dec: "n < 2 ^ 31 \<Longrightarrow> atoi (dec_of_nat n) = Some (int n)"
proof -
  assume n: "n < 2 ^ 31"
  obtain c s where cs: "dec_of_nat n = c # s" by (cases "dec_of_nat n") auto
  then have "is_digit c" using dec_of_nat_digits [of c n] by simp
  then have "split_sign (dropWhile is_space (dec_of_nat n)) = (False, dec_of_nat n)"
    by (simp add: cs split_sign_digit digit_not_space)
  then show ?thesis using n by (simp add: atoi_def)
qed

text \<open>The conversion of an \<^verbatim>\<open>int\<close> to \<^verbatim>\<open>unsigned short\<close> (\<^verbatim>\<open>in_port_t\<close>, \<^verbatim>\<open>std::uint16_t\<close>) wraps.\<close>

definition to_u16 :: "int \<Rightarrow> u16" where
  "to_u16 v = word_of_int v"

lemma unat_to_u16: "unat (to_u16 (int n)) = n mod 65536"
  by (simp add: to_u16_def unat_of_nat)

subsection \<open>stoul\<close>

text \<open>
  \<^verbatim>\<open>std::stoul\<close>: white space, an optional sign, digits. Without digits, or beyond 64 bits, it
  throws (\<open>None\<close>); a minus sign negates modulo \<open>2 ^ 64\<close>.
\<close>

definition stoul :: "string \<Rightarrow> nat option" where
  "stoul s =
     (case split_sign (dropWhile is_space s) of (neg, t) \<Rightarrow>
        let ds = takeWhile is_digit t; v = nat_of_dec ds in
        if ds = [] \<or> 2 ^ 64 \<le> v then None
        else Some (if neg then (2 ^ 64 - v) mod 2 ^ 64 else v))"

lemma split_sign_dec: "split_sign (dropWhile is_space (dec_of_nat n)) = (False, dec_of_nat n)"
proof -
  obtain c s where cs: "dec_of_nat n = c # s" by (cases "dec_of_nat n") auto
  then have "is_digit c" using dec_of_nat_digits [of c n] by simp
  then show ?thesis by (simp add: cs split_sign_digit digit_not_space)
qed

lemma stoul_dec: "n < 2 ^ 64 \<Longrightarrow> stoul (dec_of_nat n) = Some n"
  by (simp add: stoul_def split_sign_dec)

lemma stoul_empty: "stoul [] = None"
  by (simp add: stoul_def)

end
