(* ===== verification/Echo_Server.thy ===== *)
theory Echo_Server
  imports Event_Machine Cpp_Std
begin

section \<open>The non-blocking echo server (cpp/async/nonblocking/server.cpp)\<close>

text \<open>
  The classes \<^verbatim>\<open>Session\<close>, \<^verbatim>\<open>Connection\<close> and \<^verbatim>\<open>Server\<close> of \<^verbatim>\<open>server.cpp\<close>. A handler of the
  library (the completion of an \<^verbatim>\<open>async_wait\<close> or of an \<^verbatim>\<open>async_accept\<close>) is one event; what
  \<^verbatim>\<open>asio::read\<close> and \<^verbatim>\<open>asio::write\<close> answer when the handler calls them comes with the event:
  the bytes read or the number of bytes written, and the error code left in \<open>ec\<close>. The wait
  lists of a connection hold the handlers that were registered and have not run. \<open>received\<close>,
  \<open>sent\<close> and \<open>console\<close> record what went through the socket and through \<^verbatim>\<open>printf\<close>.
\<close>

subsection \<open>Session\<close>

datatype sess_state = Reading | Writing

record session =
  state :: sess_state
  write_buffer :: string

definition new_session :: session where
  "new_session = \<lparr>state = Reading, write_buffer = []\<rparr>"

definition ready_read :: "session \<Rightarrow> bool" where
  "ready_read s \<longleftrightarrow> state s = Reading"

definition ready_write :: "session \<Rightarrow> bool" where
  "ready_write s \<longleftrightarrow> state s = Writing"

text \<open>
  \<^verbatim>\<open>read\<close>: the number of bytes read is the length of the buffer that \<^verbatim>\<open>asio::read\<close> filled. The
  result is the session, the error code and what \<^verbatim>\<open>printf("%s")\<close> prints.
\<close>

definition session_read :: "session \<Rightarrow> string \<times> error_code \<Rightarrow> session \<times> error_code \<times> string" where
  "session_read s ans =
     (case ans of (read_buffer, ec) \<Rightarrow>
        if read_buffer \<noteq> []
        then (s\<lparr>write_buffer := read_buffer, state := Writing\<rparr>, ec, c_str read_buffer)
        else (s, ec, []))"

text \<open>
  \<^verbatim>\<open>write\<close>: \<^verbatim>\<open>asio::write\<close> removes the bytes it has written from the dynamic buffer, whether it
  ends with an error or not.
\<close>

definition session_write :: "session \<Rightarrow> nat \<times> error_code \<Rightarrow> session \<times> error_code" where
  "session_write s ans =
     (case ans of (n, ec) \<Rightarrow>
        let s1 = s\<lparr>write_buffer := drop n (write_buffer s)\<rparr> in
        (if n \<noteq> 0
         then s1\<lparr>state := if length (write_buffer s1) > 0 then Writing else Reading\<rparr>
         else s1, ec))"

subsection \<open>Connection\<close>

datatype wait = Wait_read | Wait_write

record connection =
  session :: session
  read_in_progress :: bool
  write_in_progress :: bool
  socket_open :: bool
  non_blocking :: bool
  waits :: "wait list"
  received :: string
  sent :: string
  console :: string

text \<open>The connection that the accept handler builds around a connected socket.\<close>

definition new_connection :: connection where
  "new_connection =
     \<lparr>session = new_session, read_in_progress = False, write_in_progress = False,
      socket_open = True, non_blocking = False, waits = [],
      received = [], sent = [], console = []\<rparr>"

definition wait_for_read :: "connection \<Rightarrow> connection" where
  "wait_for_read c =
     (if ready_read (session c) \<and> \<not> read_in_progress c
      then c\<lparr>read_in_progress := True, waits := waits c @ [Wait_read]\<rparr> else c)"

definition wait_for_write :: "connection \<Rightarrow> connection" where
  "wait_for_write c =
     (if ready_write (session c) \<and> \<not> write_in_progress c
      then c\<lparr>write_in_progress := True, waits := waits c @ [Wait_write]\<rparr> else c)"

definition operations :: "connection \<Rightarrow> connection" where
  "operations c = wait_for_write (wait_for_read c)"

definition start :: "connection \<Rightarrow> connection" where
  "start c = operations (c\<lparr>non_blocking := True\<rparr>)"

definition close_socket :: "connection \<Rightarrow> connection" where
  "close_socket c = c\<lparr>socket_open := False\<rparr>"

text \<open>The last statement of both handlers: carry on, or close.\<close>

definition continue_or_close :: "connection \<Rightarrow> error_code \<Rightarrow> connection" where
  "continue_or_close c ec =
     (if \<not> failed ec \<or> ec = Would_block then operations c else close_socket c)"

definition on_read_ready :: "connection \<Rightarrow> error_code \<Rightarrow> string \<times> error_code \<Rightarrow> connection" where
  "on_read_ready c ec ans =
     (let c1 = c\<lparr>read_in_progress := False\<rparr> in
      if \<not> failed ec then
        (case session_read (session c1) ans of (s, ec', out) \<Rightarrow>
           continue_or_close
             (c1\<lparr>session := s, received := received c1 @ fst ans,
                 console := console c1 @ out\<rparr>) ec')
      else continue_or_close c1 ec)"

definition on_write_ready :: "connection \<Rightarrow> error_code \<Rightarrow> nat \<times> error_code \<Rightarrow> connection" where
  "on_write_ready c ec ans =
     (let c1 = c\<lparr>write_in_progress := False\<rparr> in
      if \<not> failed ec then
        (case session_write (session c1) ans of (s, ec') \<Rightarrow>
           continue_or_close
             (c1\<lparr>session := s,
                 sent := sent c1 @ take (fst ans) (write_buffer (session c1))\<rparr>) ec')
      else continue_or_close c1 ec)"

datatype conn_event =
    Read_ready error_code "string \<times> error_code"
  | Write_ready error_code "nat \<times> error_code"

text \<open>One handler runs: the library takes it off the list of registered handlers first.\<close>

fun conn_step :: "connection \<Rightarrow> conn_event \<Rightarrow> connection" where
  "conn_step c (Read_ready ec ans) =
     on_read_ready (c\<lparr>waits := remove1 Wait_read (waits c)\<rparr>) ec ans"
| "conn_step c (Write_ready ec ans) =
     on_write_ready (c\<lparr>waits := remove1 Wait_write (waits c)\<rparr>) ec ans"

text \<open>
  What the library promises: a handler runs only if it was registered, and \<^verbatim>\<open>asio::write\<close> never
  reports more bytes than the buffer holds and reports success only for the whole buffer.
\<close>

fun conn_ok :: "connection \<Rightarrow> conn_event \<Rightarrow> bool" where
  "conn_ok c (Read_ready ec ans) \<longleftrightarrow> Wait_read \<in> set (waits c)"
| "conn_ok c (Write_ready ec ans) \<longleftrightarrow>
     Wait_write \<in> set (waits c) \<and>
     fst ans \<le> length (write_buffer (session c)) \<and>
     (snd ans = Success \<longrightarrow> fst ans = length (write_buffer (session c)))"

lemmas conn_defs =
  ready_read_def ready_write_def session_read_def session_write_def
  wait_for_read_def wait_for_write_def operations_def close_socket_def
  continue_or_close_def on_read_ready_def on_write_ready_def Let_def


subsection \<open>The connection invariant\<close>

text \<open>
  What was read and not yet written is exactly the write buffer; the state says whether there is
  any; an open connection has exactly one registered handler, the one its state calls for,
  and a closed one has none (so nothing keeps the object alive).
\<close>

fun wait_of :: "sess_state \<Rightarrow> wait" where
  "wait_of Reading = Wait_read"
| "wait_of Writing = Wait_write"

definition conn_inv :: "connection \<Rightarrow> bool" where
  "conn_inv c \<longleftrightarrow>
     received c = sent c @ write_buffer (session c) \<and>
     (state (session c) = Writing \<longleftrightarrow> write_buffer (session c) \<noteq> []) \<and>
     waits c = (if socket_open c then [wait_of (state (session c))] else []) \<and>
     (socket_open c \<longrightarrow>
        (read_in_progress c \<longleftrightarrow> state (session c) = Reading) \<and>
        (write_in_progress c \<longleftrightarrow> state (session c) = Writing))"

lemma conn_inv_start: "conn_inv (start new_connection)"
  by (simp add: conn_inv_def start_def new_connection_def new_session_def conn_defs)

lemma conn_inv_read:
  assumes "conn_inv c" and "conn_ok c (Read_ready ec ans)"
  shows "conn_inv (conn_step c (Read_ready ec ans))"
proof (cases ans)
  case (Pair bs ec')
  have rd: "state (session c) = Reading" "socket_open c"
    using assms by (cases "state (session c)"; auto simp: conn_inv_def split: if_splits)+
  then show ?thesis
    using assms Pair by (cases "failed ec") (auto simp: conn_inv_def conn_defs)
qed

lemma conn_inv_write:
  assumes "conn_inv c" and "conn_ok c (Write_ready ec ans)"
  shows "conn_inv (conn_step c (Write_ready ec ans))"
proof (cases ans)
  case (Pair n ec')
  have wr: "state (session c) = Writing" "socket_open c"
    using assms by (cases "state (session c)"; auto simp: conn_inv_def split: if_splits)+
  then show ?thesis
    using assms Pair by (cases "failed ec") (auto simp: conn_inv_def conn_defs Let_def)
qed

lemma conn_inv_step: "conn_inv c \<Longrightarrow> conn_ok c e \<Longrightarrow> conn_inv (conn_step c e)"
  by (cases e) (simp_all only: conn_inv_read conn_inv_write)

subsection \<open>The abstract echo service: a queue of bytes\<close>

text \<open>
  What a connection promises: the bytes read go into a first-in first-out queue, the bytes
  written are taken from its front, and a fault stops the service for good.
\<close>

record echo_service =
  queue :: string
  echoed :: string
  running :: bool

datatype echo_event = Arrive string bool | Depart nat bool

fun echo_spec :: "echo_service \<Rightarrow> echo_event \<Rightarrow> echo_service" where
  "echo_spec q (Arrive bs alive) = q\<lparr>queue := queue q @ bs, running := alive\<rparr>"
| "echo_spec q (Depart n alive) =
     q\<lparr>queue := drop n (queue q), echoed := echoed q @ take n (queue q), running := alive\<rparr>"

definition goes_on :: "error_code \<Rightarrow> bool" where
  "goes_on ec \<longleftrightarrow> ec = Success \<or> ec = Would_block"

fun echo_event_of :: "conn_event \<Rightarrow> echo_event" where
  "echo_event_of (Read_ready ec ans) =
     (if failed ec then Arrive [] (goes_on ec) else Arrive (fst ans) (goes_on (snd ans)))"
| "echo_event_of (Write_ready ec ans) =
     (if failed ec then Depart 0 (goes_on ec) else Depart (fst ans) (goes_on (snd ans)))"

definition echo_abs :: "connection \<Rightarrow> echo_service" where
  "echo_abs c = \<lparr>queue = write_buffer (session c), echoed = sent c, running = socket_open c\<rparr>"

lemma conn_step_echo:
  assumes "conn_inv c" and "conn_ok c e"
  shows "echo_abs (conn_step c e) = echo_spec (echo_abs c) (echo_event_of e)"
proof (cases e)
  case (Read_ready ec ans)
  obtain bs ec' where ans: "ans = (bs, ec')" by (cases ans)
  have "state (session c) = Reading" "socket_open c"
    using assms Read_ready
    by (cases "state (session c)"; auto simp: conn_inv_def split: if_splits)+
  then show ?thesis
    using assms Read_ready ans
    by (cases "failed ec")
      (auto simp: echo_abs_def conn_inv_def conn_defs goes_on_def failed_def)
next
  case (Write_ready ec ans)
  obtain n ec' where ans: "ans = (n, ec')" by (cases ans)
  have "state (session c) = Writing" "socket_open c"
    using assms Write_ready
    by (cases "state (session c)"; auto simp: conn_inv_def split: if_splits)+
  then show ?thesis
    using assms Write_ready ans
    by (cases "failed ec")
      (auto simp: echo_abs_def conn_inv_def conn_defs goes_on_def failed_def Let_def)
qed

interpretation conn: refined_machine conn_step conn_ok conn_inv echo_abs echo_spec echo_event_of
  by unfold_locales (auto intro: conn_inv_step conn_step_echo)


subsection \<open>The server: the accept loop over all connections\<close>

text \<open>
  \<open>accepting\<close> counts the registered accept handlers. A connection that is closed and has no
  registered handler is destroyed by its last \<^verbatim>\<open>shared_ptr\<close>; it keeps its place in the list
  here, so that an index names the same connection throughout a run.
\<close>

record server =
  connections :: "connection list"
  accepting :: nat

definition accept :: "server \<Rightarrow> server" where
  "accept s = s\<lparr>accepting := Suc (accepting s)\<rparr>"

definition new_server :: server where
  "new_server = accept \<lparr>connections = [], accepting = 0\<rparr>"

definition on_accept :: "server \<Rightarrow> error_code \<Rightarrow> server" where
  "on_accept s ec =
     accept (if \<not> failed ec
             then s\<lparr>connections := connections s @ [start new_connection]\<rparr> else s)"

datatype server_event = Accepted error_code | On_connection nat conn_event

fun server_step :: "server \<Rightarrow> server_event \<Rightarrow> server" where
  "server_step s (Accepted ec) = on_accept (s\<lparr>accepting := accepting s - 1\<rparr>) ec"
| "server_step s (On_connection i e) =
     s\<lparr>connections := (connections s)[i := conn_step (connections s ! i) e]\<rparr>"

fun server_ok :: "server \<Rightarrow> server_event \<Rightarrow> bool" where
  "server_ok s (Accepted ec) \<longleftrightarrow> accepting s > 0"
| "server_ok s (On_connection i e) \<longleftrightarrow>
     i < length (connections s) \<and> conn_ok (connections s ! i) e"

definition server_inv :: "server \<Rightarrow> bool" where
  "server_inv s \<longleftrightarrow> accepting s = 1 \<and> list_all conn_inv (connections s)"

lemma server_inv_new: "server_inv new_server"
  by (simp add: server_inv_def new_server_def accept_def)

lemma server_inv_step: "server_inv s \<Longrightarrow> server_ok s e \<Longrightarrow> server_inv (server_step s e)"
  by (cases e)
    (auto simp: server_inv_def on_accept_def accept_def conn_inv_start
      intro!: list_all_update conn_inv_step intro: list_all_nthD [where P = conn_inv])

interpretation srv: event_machine server_step server_ok server_inv
  by unfold_locales (rule server_inv_step)

fun events_of :: "nat \<Rightarrow> server_event list \<Rightarrow> conn_event list" where
  "events_of i [] = []"
| "events_of i (On_connection j e # es) = (if i = j then e # events_of i es else events_of i es)"
| "events_of i (Accepted ec # es) = events_of i es"

text \<open>The bytes that a list of events brings to a connection.\<close>

fun arrived :: "conn_event list \<Rightarrow> string" where
  "arrived [] = []"
| "arrived (Read_ready ec ans # es) = (if failed ec then [] else fst ans) @ arrived es"
| "arrived (Write_ready ec ans # es) = arrived es"

lemma conn_step_received: "received (conn_step c e) = received c @ arrived [e]"
  by (cases e) (auto simp: conn_defs split: prod.splits)

lemma arrived_Cons: "arrived (e # es) = arrived [e] @ arrived es"
  by (cases e) simp_all

text \<open>What a connection of the server has received, whether it was there before the events or is accepted by them.\<close>

lemma server_received:
  assumes "legal_events server_ok server_step s es" and "i < length (connections (run_events server_step s es))"
  shows "received (connections (run_events server_step s es) ! i) =
    (if i < length (connections s) then received (connections s ! i) else []) @ arrived (events_of i es)"
  using assms
proof (induction es arbitrary: s)
  case (Cons e es)
  then have IH: "received (connections (run_events server_step (server_step s e) es) ! i) =
      (if i < length (connections (server_step s e)) then received (connections (server_step s e) ! i) else []) @
        arrived (events_of i es)"
    by simp
  show ?case
  proof (cases e)
    case (Accepted ec)
    have "received (start new_connection) = []"
      by (simp add: start_def new_connection_def new_session_def conn_defs)
    then show ?thesis using IH
      by (auto simp: Accepted on_accept_def accept_def nth_append less_Suc_eq)
  next
    case (On_connection j v)
    then have "j < length (connections s)" using Cons.prems by simp
    moreover have "arrived (v # events_of i es) = arrived [v] @ arrived (events_of i es)" by (rule arrived_Cons)
    ultimately show ?thesis using IH
      by (auto simp: On_connection conn_step_received nth_list_update simp del: conn_step.simps arrived.simps)
  qed
qed simp

text \<open>
  \<^verbatim>\<open>main\<close>: the port is \<^verbatim>\<open>std::atoi(argv[1])\<close> converted to \<^verbatim>\<open>unsigned short\<close>. \<open>bind\<close> stands for
  opening the acceptor, which throws when the port cannot be bound; the exception is caught
  and the process still exits with 0.
\<close>

datatype server_result = Exits int | Serves u16 | Undefined_behaviour

definition server_main :: "(u16 \<Rightarrow> bool) \<Rightarrow> string list \<Rightarrow> server_result" where
  "server_main bind argv =
     (if length argv \<noteq> 2 then Exits 1
      else case atoi (argv ! 1) of
          None \<Rightarrow> Undefined_behaviour
        | Some v \<Rightarrow> if bind (to_u16 v) then Serves (to_u16 v) else Exits 0)"

section \<open>Properties of the echo server\<close>

text \<open>
  C1. In every run the library can produce on one connection, the bytes sent back followed by
  the bytes waiting in the write buffer are exactly the bytes received, in order: nothing is
  lost, duplicated or reordered. When the session is ready to read, everything received has
  been echoed.
\<close>

theorem echo_server_transparent:
  assumes "legal_events conn_ok conn_step (start new_connection) es"
  shows "let c = run_events conn_step (start new_connection) es in
     received c = sent c @ write_buffer (session c) \<and>
     (ready_read (session c) \<longrightarrow> sent c = received c)"
proof -
  have "conn_inv (run_events conn_step (start new_connection) es)"
    using assms by (rule conn.run_inv [OF conn_inv_start])
  then show ?thesis by (auto simp: conn_inv_def ready_read_def Let_def)
qed

theorem echo_server_transparent_witness:
  "let es = [Read_ready Success (''hello'', Would_block), Write_ready Success (3, Would_block),
             Write_ready Success (2, Success)];
       c = run_events conn_step (start new_connection) es in
     sent c = ''hello'' \<and> received c = sent c @ write_buffer (session c)"
proof -
  let ?es = "[Read_ready Success (''hello'', Would_block), Write_ready Success (3, Would_block),
              Write_ready Success (2, Success)]"
  have "legal_events conn_ok conn_step (start new_connection) ?es"
    by (simp add: start_def new_connection_def new_session_def conn_defs)
  from echo_server_transparent [OF this]
  have "received (run_events conn_step (start new_connection) ?es) =
      sent (run_events conn_step (start new_connection) ?es) @
      write_buffer (session (run_events conn_step (start new_connection) ?es))"
    by (simp add: Let_def)
  moreover have "sent (run_events conn_step (start new_connection) ?es) = ''hello''"
    by (simp add: start_def new_connection_def new_session_def conn_defs)
  ultimately show ?thesis by (simp add: Let_def)
qed


text \<open>
  C2. A connection implements the abstract echo service: after every run the library can
  produce, the write buffer, the bytes sent and whether the socket is open are those of a
  first-in first-out byte queue that sees the same arrivals and departures.
\<close>

theorem echo_server_refines_queue:
  assumes "legal_events conn_ok conn_step (start new_connection) es"
  shows "echo_abs (run_events conn_step (start new_connection) es) =
    run_events echo_spec \<lparr>queue = [], echoed = [], running = True\<rparr> (map echo_event_of es)"
proof -
  have "echo_abs (start new_connection) = \<lparr>queue = [], echoed = [], running = True\<rparr>"
    by (simp add: echo_abs_def start_def new_connection_def new_session_def conn_defs)
  then show ?thesis using conn.run_abs [OF conn_inv_start assms] by simp
qed

theorem echo_server_refines_queue_witness:
  "let es = [Read_ready Success (''abc'', Would_block), Write_ready Success (2, Would_block)] in
     echo_abs (run_events conn_step (start new_connection) es) =
       \<lparr>queue = ''c'', echoed = ''ab'', running = True\<rparr>"
proof -
  let ?es = "[Read_ready Success (''abc'', Would_block), Write_ready Success (2, Would_block)]"
  have "legal_events conn_ok conn_step (start new_connection) ?es"
    by (simp add: start_def new_connection_def new_session_def conn_defs)
  from echo_server_refines_queue [OF this] show ?thesis by (simp add: Let_def goes_on_def)
qed

text \<open>
  C3. A connection is never stuck and never leaks: in every run, while its socket is open
  exactly one handler is registered (a read wait when the session is reading, a write wait when
  it is writing, with the matching progress flag set), and once the socket is closed no
  handler is left.
\<close>

theorem echo_server_one_handler:
  assumes "legal_events conn_ok conn_step (start new_connection) es"
  shows "let c = run_events conn_step (start new_connection) es in
     waits c = (if socket_open c then [wait_of (state (session c))] else []) \<and>
     (socket_open c \<longrightarrow> read_in_progress c = ready_read (session c) \<and>
                       write_in_progress c = ready_write (session c))"
proof -
  have "conn_inv (run_events conn_step (start new_connection) es)"
    using assms by (rule conn.run_inv [OF conn_inv_start])
  then show ?thesis by (auto simp: conn_inv_def ready_read_def ready_write_def Let_def)
qed

theorem echo_server_one_handler_witness:
  "waits (run_events conn_step (start new_connection)
     [Read_ready Success (''x'', Would_block)]) = [Wait_write]"
proof -
  let ?es = "[Read_ready Success (''x'', Would_block)]"
  have "legal_events conn_ok conn_step (start new_connection) ?es"
    by (simp add: start_def new_connection_def new_session_def conn_defs)
  from echo_server_one_handler [OF this] show ?thesis
    by (simp add: Let_def start_def new_connection_def new_session_def conn_defs)
qed

text \<open>
  C19. The last bytes of a client that stops sending are never echoed: when \<^verbatim>\<open>asio::read\<close> returns
  bytes together with an error other than \<^verbatim>\<open>would_block\<close> (end of file, say), the connection
  stores them for writing, closes the socket, and in no continuation of the run is any
  of them sent.
\<close>

theorem echo_server_drops_tail:
  assumes "conn_inv c" and "conn_ok c (Read_ready Success (bs, ec))"
    and "ec \<noteq> Success" and "ec \<noteq> Would_block"
    and "legal_events conn_ok conn_step (conn_step c (Read_ready Success (bs, ec))) es"
  shows "let c' = run_events conn_step (conn_step c (Read_ready Success (bs, ec))) es in
     \<not> socket_open c' \<and> received c' = sent c @ bs \<and> sent c' = sent c"
proof -
  let ?c = "conn_step c (Read_ready Success (bs, ec))"
  have rd: "state (session c) = Reading" "socket_open c"
    using assms(1,2) by (cases "state (session c)"; auto simp: conn_inv_def split: if_splits)+
  then have c: "\<not> socket_open ?c" "waits ?c = []" "received ?c = sent c @ bs" "sent ?c = sent c"
    using assms(1-4) by (auto simp: conn_inv_def conn_defs failed_def)
  have "es = []"
  proof (cases es)
    case (Cons e fs)
    then show ?thesis using assms(5) c(2) by (cases e) auto
  qed simp
  then show ?thesis using c by simp
qed

theorem echo_server_drops_tail_witness:
  "sent (conn_step (start new_connection) (Read_ready Success (''bye'', Eof))) = []"
proof -
  have "conn_ok (start new_connection) (Read_ready Success (''bye'', Eof))"
    by (simp add: start_def new_connection_def new_session_def conn_defs)
  from echo_server_drops_tail [OF conn_inv_start this, of "[]"]
  have "sent (conn_step (start new_connection) (Read_ready Success (''bye'', Eof))) =
      sent (start new_connection)"
    by (simp add: Let_def)
  then show ?thesis
    by (simp add: start_def new_connection_def new_session_def conn_defs)
qed

text \<open>
  C14. The whole server: over any run that accepts and serves any number of connections, what it has sent on a connection, followed by
  what is still in that connection's buffer, is what arrived on the same connection since it was accepted, read off
  the events; so no byte gets to another client, before its time, or twice.
\<close>

theorem echo_server_echoes_each:
  assumes "legal_events server_ok server_step new_server es"
    and "i < length (connections (run_events server_step new_server es))"
  shows "let c = connections (run_events server_step new_server es) ! i in
    sent c @ write_buffer (session c) = arrived (events_of i es) \<and>
    (socket_open c \<and> Wait_read \<in> set (waits c) \<longrightarrow> sent c = arrived (events_of i es))"
proof -
  let ?s = "run_events server_step new_server es"
  have "list_all conn_inv (connections ?s)"
    using srv.run_inv [OF server_inv_new assms(1)] by (simp add: server_inv_def)
  then have "conn_inv (connections ?s ! i)" using assms(2) by (simp add: list_all_length)
  moreover have "received (connections ?s ! i) = arrived (events_of i es)"
    using server_received [OF assms] by (simp add: new_server_def accept_def)
  ultimately show ?thesis
    by (cases "state (session (connections ?s ! i))") (auto simp: conn_inv_def Let_def)
qed

theorem echo_server_echoes_each_witness:
  "let s = run_events server_step new_server [Accepted Success, Accepted Success,
       On_connection 1 (Read_ready Success (''bc'', Would_block)), On_connection 0 (Read_ready Success (''a'', Would_block)),
       On_connection 1 (Write_ready Success (1, Would_block))] in
     sent (connections s ! 1) @ write_buffer (session (connections s ! 1)) = ''bc''"
proof -
  let ?es = "[Accepted Success, Accepted Success,
       On_connection 1 (Read_ready Success (''bc'', Would_block)), On_connection 0 (Read_ready Success (''a'', Would_block)),
       On_connection 1 (Write_ready Success (1, Would_block))]"
  have legal: "legal_events server_ok server_step new_server ?es"
    by (simp add: new_server_def on_accept_def accept_def start_def
        new_connection_def new_session_def conn_defs)
  have "1 < length (connections (run_events server_step new_server ?es))"
    by (simp add: new_server_def on_accept_def accept_def)
  from echo_server_echoes_each [OF legal this] show ?thesis
    by (simp only: Let_def) simp
qed

text \<open>
  C17. The server never runs out of work and keeps every connection sound: after any run the
  library can produce, exactly one accept handler is registered (so \<^verbatim>\<open>io_context.run()\<close> does not
  return) and every connection satisfies its invariant.
\<close>

theorem echo_server_keeps_accepting:
  assumes "legal_events server_ok server_step new_server es"
  shows "accepting (run_events server_step new_server es) = 1 \<and>
     list_all conn_inv (connections (run_events server_step new_server es))"
  using srv.run_inv [OF server_inv_new assms] by (simp add: server_inv_def)

theorem echo_server_keeps_accepting_witness:
  "accepting (run_events server_step new_server
     [Accepted (Other 24), Accepted Success, On_connection 0 (Read_ready Success (''x'', Eof))]) = 1"
proof -
  let ?es = "[Accepted (Other 24), Accepted Success,
              On_connection 0 (Read_ready Success (''x'', Eof))]"
  have "legal_events server_ok server_step new_server ?es"
    by (simp add: new_server_def on_accept_def accept_def start_def
        new_connection_def new_session_def conn_defs)
  from echo_server_keeps_accepting [OF this] show ?thesis by simp
qed

text \<open>
  The port given on the command line is reduced modulo 65536: a number that fits an \<^verbatim>\<open>int\<close> is
  accepted whatever its size, and the server listens on its remainder.
\<close>

theorem echo_server_port:
  assumes "n < 2 ^ 31" and "\<And>p. bind p"
  shows "\<exists>p. server_main bind [prog, dec_of_nat n] = Serves p \<and> unat p = n mod 65536"
  using assms by (simp add: server_main_def atoi_dec unat_to_u16)

theorem echo_server_port_witness:
  "\<exists>p. server_main (\<lambda>_. True) [''server'', dec_of_nat 73616] = Serves p \<and> unat p = 8080"
  using echo_server_port [of 73616 "\<lambda>_. True" "''server''"] by simp

end
