(* ===== verification/Async_Client.thy ===== *)
theory Async_Client
  imports Event_Machine Cpp_Std
begin

section \<open>The asynchronous client (cpp/async/nonblocking/client.cpp)\<close>

text \<open>
  The classes \<^verbatim>\<open>Session\<close>, \<^verbatim>\<open>Connection\<close> and \<^verbatim>\<open>Client\<close> of \<^verbatim>\<open>client.cpp\<close> and the requests its
  \<^verbatim>\<open>main\<close> sends. A request resolves the address, connects, waits until the socket can be
  written, writes, waits until it can be read, reads. The three completions run handlers, and each handler
  calls a function of the library that blocks: \<^verbatim>\<open>asio::connect\<close>, \<^verbatim>\<open>asio::write\<close>, \<^verbatim>\<open>asio::read\<close>. A handler
  that is inside such a call is a state of its own (\<open>inside\<close>), and the return of the call, with its
  answer, an event of its own; until it comes the thread of the \<^verbatim>\<open>io_context\<close> runs no other handler. \<open>wanted\<close> (the
  request the connection was made for) and \<open>sent\<close> (the bytes \<^verbatim>\<open>asio::write\<close> transferred) record
  the history.
\<close>

subsection \<open>Session\<close>

datatype sess_state = Reading | Writing

record session =
  state :: sess_state
  write_buffer :: string
  read_buffer :: string

definition new_session :: session where
  "new_session = \<lparr>state = Writing, write_buffer = [], read_buffer = []\<rparr>"

definition ready_read :: "session \<Rightarrow> bool" where
  "ready_read s \<longleftrightarrow> state s = Reading"

definition ready_write :: "session \<Rightarrow> bool" where
  "ready_write s \<longleftrightarrow> state s = Writing"

datatype log_line =
    Write_result error_code
  | Read_result error_code
  | Body string
  | Host_resolved
  | Sending string
  | Connection_closed
  | Resolving_error

definition session_read :: "session \<Rightarrow> string \<times> error_code \<Rightarrow> session \<times> log_line list" where
  "session_read s ans =
     (case ans of (response, ec) \<Rightarrow>
        if response \<noteq> [] then (s\<lparr>read_buffer := response\<rparr>, [Body (c_str response)]) else (s, []))"

text \<open>The dynamic buffer wraps the parameter \<^verbatim>\<open>request\<close>; \<open>write_buffer\<close> is tested, never set.\<close>

definition session_write :: "session \<Rightarrow> nat \<times> error_code \<Rightarrow> session" where
  "session_write s ans =
     (case ans of (n, ec) \<Rightarrow>
        if n \<noteq> 0
        then s\<lparr>state := if length (write_buffer s) > 0 then Writing else Reading\<rparr>
        else s)"

subsection \<open>Connection\<close>

datatype wait = Wait_write string | Wait_read

datatype blocking_call = In_connect string | In_write string | In_read

record connection =
  session :: session
  read_in_progress :: bool
  write_in_progress :: bool
  socket_open :: bool
  resolving :: "string option"
  waits :: "wait list"
  inside :: "blocking_call option"
  wanted :: string
  sent :: string
  log :: "log_line list"

definition say :: "log_line list \<Rightarrow> connection \<Rightarrow> connection" where
  "say ls c = c\<lparr>log := log c @ ls\<rparr>"

definition request :: "string \<Rightarrow> connection \<Rightarrow> connection" where
  "request req c =
     (if ready_write (session c) \<and> \<not> write_in_progress c
      then c\<lparr>write_in_progress := True, waits := waits c @ [Wait_write req]\<rparr> else c)"

definition response :: "connection \<Rightarrow> connection" where
  "response c =
     (if ready_read (session c) \<and> \<not> read_in_progress c
      then c\<lparr>read_in_progress := True, waits := waits c @ [Wait_read]\<rparr> else c)"

text \<open>
  The write handler up to \<^verbatim>\<open>session_.write\<close>, and what follows when \<^verbatim>\<open>asio::write\<close> has returned; the read
  handler likewise.
\<close>

definition on_write_ready :: "string \<Rightarrow> error_code \<Rightarrow> connection \<Rightarrow> connection" where
  "on_write_ready req ec c =
     (let c1 = say [Write_result ec] (c\<lparr>write_in_progress := False\<rparr>) in
      if \<not> failed ec then c1\<lparr>inside := Some (In_write req)\<rparr> else response c1)"

definition on_written :: "string \<Rightarrow> nat \<times> error_code \<Rightarrow> connection \<Rightarrow> connection" where
  "on_written req ans c =
     response (c\<lparr>session := session_write (session c) ans, sent := sent c @ take (fst ans) req\<rparr>)"

definition on_read_ready :: "error_code \<Rightarrow> connection \<Rightarrow> connection" where
  "on_read_ready ec c =
     (let c1 = say [Read_result ec] (c\<lparr>read_in_progress := False\<rparr>) in
      if \<not> failed ec then c1\<lparr>inside := Some In_read\<rparr> else c1)"

definition on_read :: "string \<times> error_code \<Rightarrow> connection \<Rightarrow> connection" where
  "on_read ans c =
     (case session_read (session c) ans of (s, ls) \<Rightarrow> say ls (c\<lparr>session := s\<rparr>))"

subsection \<open>Client\<close>

text \<open>
  \<^verbatim>\<open>async_request\<close>: a connection whose socket is not open yet, pushed on \<^verbatim>\<open>connections_\<close>, and a
  registered resolve handler that holds the request.
\<close>

definition new_connection :: "string \<Rightarrow> connection" where
  "new_connection r =
     \<lparr>session = new_session, read_in_progress = False, write_in_progress = False,
      socket_open = False, resolving = Some r, waits = [], inside = None, wanted = r, sent = [], log = []\<rparr>"

text \<open>
  The resolve handler up to \<^verbatim>\<open>asio::connect\<close>, and what follows: \<open>connects\<close> says whether the call succeeds (when it does
  not, it throws: the second component of the result), \<open>is_open\<close> what \<^verbatim>\<open>socket_.is_open()\<close> then answers.
\<close>

definition on_resolved :: "string \<Rightarrow> error_code \<Rightarrow> bool \<Rightarrow> connection \<Rightarrow> connection" where
  "on_resolved r ec results_empty c =
     (if \<not> failed ec \<and> \<not> results_empty
      then (say [Host_resolved] c)\<lparr>inside := Some (In_connect r)\<rparr>
      else (say [Resolving_error] c)\<lparr>socket_open := False\<rparr>)"

definition on_connected :: "string \<Rightarrow> bool \<Rightarrow> bool \<Rightarrow> connection \<Rightarrow> connection \<times> bool" where
  "on_connected r connects is_open c =
     (if \<not> connects then (c, True)
      else
        (let c1 = c\<lparr>socket_open := is_open\<rparr> in
         if socket_open c1 then (request r (say [Sending (c_str r)] c1), False)
         else (say [Connection_closed] c1, False)))"

datatype conn_event =
    Resolved error_code bool
  | Connected bool bool
  | Write_ready error_code
  | Written "nat \<times> error_code"
  | Read_ready error_code
  | Read_done "string \<times> error_code"

text \<open>The events that end a blocking call; the others start a handler.\<close>

fun call_returns :: "conn_event \<Rightarrow> bool" where
  "call_returns (Connected connects is_open) = True"
| "call_returns (Written ans) = True"
| "call_returns (Read_done ans) = True"
| "call_returns e = False"

fun pending_write :: "wait list \<Rightarrow> string option" where
  "pending_write [] = None"
| "pending_write (Wait_write r # ws) = Some r"
| "pending_write (Wait_read # ws) = pending_write ws"

text \<open>
  A handler of a connection starts, or the call it is inside returns; an event that cannot be changes nothing.
  The flag is raised when the handler throws.
\<close>

fun conn_step :: "connection \<Rightarrow> conn_event \<Rightarrow> connection \<times> bool" where
  "conn_step c (Resolved ec results_empty) =
     (case resolving c of None \<Rightarrow> (c, False)
      | Some r \<Rightarrow> (on_resolved r ec results_empty (c\<lparr>resolving := None\<rparr>), False))"
| "conn_step c (Connected connects is_open) =
     (case inside c of
        Some (In_connect r) \<Rightarrow> on_connected r connects is_open (c\<lparr>inside := None\<rparr>)
      | _ \<Rightarrow> (c, False))"
| "conn_step c (Write_ready ec) =
     (case pending_write (waits c) of None \<Rightarrow> (c, False)
      | Some r \<Rightarrow> (on_write_ready r ec (c\<lparr>waits := remove1 (Wait_write r) (waits c)\<rparr>), False))"
| "conn_step c (Written ans) =
     (case inside c of
        Some (In_write r) \<Rightarrow> (on_written r ans (c\<lparr>inside := None\<rparr>), False)
      | _ \<Rightarrow> (c, False))"
| "conn_step c (Read_ready ec) =
     (if Wait_read \<in> set (waits c)
      then (on_read_ready ec (c\<lparr>waits := remove1 Wait_read (waits c)\<rparr>), False)
      else (c, False))"
| "conn_step c (Read_done ans) =
     (case inside c of
        Some In_read \<Rightarrow> (on_read ans (c\<lparr>inside := None\<rparr>), False)
      | _ \<Rightarrow> (c, False))"

text \<open>What may come next: a registered handler of a connection that is not inside a call, or the return of its call.\<close>

fun conn_ok :: "connection \<Rightarrow> conn_event \<Rightarrow> bool" where
  "conn_ok c (Resolved ec results_empty) \<longleftrightarrow> inside c = None \<and> resolving c \<noteq> None"
| "conn_ok c (Connected connects is_open) \<longleftrightarrow>
     (case inside c of Some (In_connect r) \<Rightarrow> True | _ \<Rightarrow> False)"
| "conn_ok c (Write_ready ec) \<longleftrightarrow> inside c = None \<and> pending_write (waits c) \<noteq> None"
| "conn_ok c (Written ans) \<longleftrightarrow>
     (case inside c of
        Some (In_write r) \<Rightarrow> fst ans \<le> length r \<and> (snd ans = Success \<longrightarrow> fst ans = length r)
      | _ \<Rightarrow> False)"
| "conn_ok c (Read_ready ec) \<longleftrightarrow> inside c = None \<and> Wait_read \<in> set (waits c)"
| "conn_ok c (Read_done ans) \<longleftrightarrow> inside c = Some In_read"

record client =
  connections :: "connection list"
  thrown :: bool

definition new_client :: client where
  "new_client = \<lparr>connections = [], thrown = False\<rparr>"

definition send_request :: "string \<Rightarrow> client \<Rightarrow> client" where
  "send_request r cl = cl\<lparr>connections := connections cl @ [new_connection r]\<rparr>"

text \<open>\<^verbatim>\<open>io_context.run()\<close>: an exception leaves \<^verbatim>\<open>run\<close>, after which no handler runs.\<close>

fun client_step :: "client \<Rightarrow> nat \<times> conn_event \<Rightarrow> client" where
  "client_step cl (i, e) =
     (case conn_step (connections cl ! i) e of (c, t) \<Rightarrow>
        cl\<lparr>connections := (connections cl)[i := c], thrown := t\<rparr>)"

text \<open>\<^verbatim>\<open>run()\<close> has one thread: while a handler is inside a call no other handler starts.\<close>

fun client_ok :: "client \<Rightarrow> nat \<times> conn_event \<Rightarrow> bool" where
  "client_ok cl (i, e) \<longleftrightarrow>
     \<not> thrown cl \<and> i < length (connections cl) \<and> conn_ok (connections cl ! i) e \<and>
     (list_all (\<lambda>c. inside c = None) (connections cl) \<or> call_returns e)"

definition idle :: "connection \<Rightarrow> bool" where
  "idle c = (resolving c = None \<and> waits c = [] \<and> inside c = None)"

text \<open>\<^verbatim>\<open>run()\<close> is over: by an exception, or since there is no work left.\<close>

definition run_over :: "client \<Rightarrow> bool" where
  "run_over cl = (thrown cl \<or> list_all idle (connections cl))"

definition request_text :: string where
  "request_text =
     ''GET / HTTP/1.1'' @ crlf @ ''Host: 127.0.0.1:8080'' @ crlf @
     ''Accept: */*'' @ crlf @ ''Connection: keep-alive'' @ crlf @ crlf"

definition main_requests :: client where
  "main_requests =
     send_request request_text (send_request request_text (send_request request_text new_client))"

text \<open>
  \<^verbatim>\<open>main\<close>: what it prints last and its exit status. The constructor of the client throws for text that is no
  address; that exception, like one that leaves \<^verbatim>\<open>run()\<close>, is caught and printed, and 0 is returned.
\<close>

datatype last_line = Usage_line | Exception_line | Finishing_line

text \<open>\<open>None\<close>: after these events \<^verbatim>\<open>run()\<close> has not returned.\<close>

definition main_exit ::
  "(string \<Rightarrow> bool) \<Rightarrow> string list \<Rightarrow> (nat \<times> conn_event) list \<Rightarrow> (last_line \<times> int) option" where
  "main_exit valid_ip argv evs =
     (let cl = run_events client_step main_requests evs in
      if length argv \<noteq> 3 then Some (Usage_line, 1)
      else if \<not> valid_ip (argv ! 1) then Some (Exception_line, 0)
      else if \<not> run_over cl then None
      else Some (if thrown cl then Exception_line else Finishing_line, 0))"

lemmas conn_defs =
  ready_read_def ready_write_def session_read_def session_write_def say_def request_def
  response_def on_write_ready_def on_written_def on_read_ready_def on_read_def on_resolved_def on_connected_def
  Let_def


subsection \<open>The life of a connection\<close>

text \<open>
  A connection resolves, then waits to write its request, then waits to read, then is idle;
  it may go idle early. It reads only after a non-empty part of the request was written.
\<close>

definition quiet :: "connection \<Rightarrow> bool" where
  "quiet c \<longleftrightarrow> waits c = [] \<and> \<not> read_in_progress c \<and> \<not> write_in_progress c"

definition conn_inv :: "connection \<Rightarrow> bool" where
  "conn_inv c \<longleftrightarrow>
     write_buffer (session c) = [] \<and> prefix (sent c) (wanted c) \<and>
     (state (session c) = Reading \<longleftrightarrow> sent c \<noteq> []) \<and>
     (read_buffer (session c) \<noteq> [] \<longrightarrow> sent c \<noteq> []) \<and>
     (case resolving c of
        Some r \<Rightarrow> r = wanted c \<and> quiet c \<and> inside c = None \<and> sent c = [] \<and> \<not> socket_open c
      | None \<Rightarrow>
          (case inside c of
             Some (In_connect r) \<Rightarrow> r = wanted c \<and> quiet c \<and> sent c = [] \<and> \<not> socket_open c
           | Some (In_write r) \<Rightarrow> r = wanted c \<and> quiet c \<and> sent c = [] \<and> socket_open c
           | Some In_read \<Rightarrow> quiet c \<and> sent c \<noteq> [] \<and> socket_open c
           | None \<Rightarrow>
               quiet c \<or>
               (waits c = [Wait_write (wanted c)] \<and> sent c = [] \<and> socket_open c \<and>
                  \<not> read_in_progress c \<and> write_in_progress c) \<or>
               (waits c = [Wait_read] \<and> sent c \<noteq> [] \<and> socket_open c \<and>
                  read_in_progress c \<and> \<not> write_in_progress c)))"

text \<open>The handlers and calls that are left in the life of a connection.\<close>

definition work :: "connection \<Rightarrow> nat" where
  "work c =
     (case resolving c of Some r \<Rightarrow> 6
      | None \<Rightarrow>
          (case inside c of
             Some (In_connect r) \<Rightarrow> 5 | Some (In_write r) \<Rightarrow> 3 | Some In_read \<Rightarrow> 1
           | None \<Rightarrow> (case waits c of [] \<Rightarrow> 0 | Wait_write r # ws \<Rightarrow> 4 | Wait_read # ws \<Rightarrow> 2)))"

lemma conn_inv_new: "conn_inv (new_connection r)"
  by (simp add: conn_inv_def new_connection_def new_session_def quiet_def)

lemma not_Reading [simp]: "s \<noteq> Reading \<longleftrightarrow> s = Writing"
  by (cases s) auto

lemmas phase_splits = option.splits blocking_call.splits

lemma resolved_step:
  assumes "conn_inv c" and "conn_ok c (Resolved ec e)"
  shows "conn_inv (fst (conn_step c (Resolved ec e))) \<and>
    work (fst (conn_step c (Resolved ec e))) < work c"
  using assms by (cases "failed ec \<or> e") (auto simp: conn_inv_def work_def quiet_def conn_defs)

lemma connected_step:
  assumes "conn_inv c" and "conn_ok c (Connected a b)"
  shows "conn_inv (fst (conn_step c (Connected a b))) \<and>
    work (fst (conn_step c (Connected a b))) < work c"
proof -
  have c: "inside c = Some (In_connect (wanted c))" "resolving c = None"
    using assms by (auto simp: conn_inv_def split: phase_splits)
  with assms(1) have "state (session c) = Writing" by (auto simp: conn_inv_def)
  with c assms(1) show ?thesis
    by (auto simp: conn_inv_def work_def quiet_def conn_defs)
qed

lemma write_ready_step:
  assumes "conn_inv c" and "conn_ok c (Write_ready ec)"
  shows "conn_inv (fst (conn_step c (Write_ready ec))) \<and>
    work (fst (conn_step c (Write_ready ec))) < work c"
proof -
  have w: "resolving c = None" "inside c = None" "waits c = [Wait_write (wanted c)]" "sent c = []"
    using assms by (auto simp: conn_inv_def quiet_def split: option.splits)
  with assms(1) have "state (session c) = Writing" by (auto simp: conn_inv_def)
  with w assms show ?thesis
    by (auto simp: conn_inv_def work_def quiet_def conn_defs)
qed

lemma written_step:
  assumes "conn_inv c" and "conn_ok c (Written ans)"
  shows "conn_inv (fst (conn_step c (Written ans))) \<and>
    work (fst (conn_step c (Written ans))) < work c"
proof -
  obtain n ec where ans: "ans = (n, ec)" by (cases ans)
  have w: "resolving c = None" "inside c = Some (In_write (wanted c))" "sent c = []"
    using assms by (auto simp: conn_inv_def split: phase_splits)
  with assms(1) have "state (session c) = Writing" by (auto simp: conn_inv_def)
  with w assms ans show ?thesis
    by (cases n) (auto simp: conn_inv_def work_def quiet_def conn_defs take_is_prefix)
qed

lemma read_ready_step:
  assumes "conn_inv c" and "conn_ok c (Read_ready ec)"
  shows "conn_inv (fst (conn_step c (Read_ready ec))) \<and>
    work (fst (conn_step c (Read_ready ec))) < work c"
proof -
  have w: "resolving c = None" "inside c = None" "waits c = [Wait_read]" "sent c \<noteq> []"
    using assms by (auto simp: conn_inv_def quiet_def split: option.splits)
  with assms show ?thesis
    by (auto simp: conn_inv_def work_def quiet_def conn_defs)
qed

lemma read_done_step:
  assumes "conn_inv c" and "conn_ok c (Read_done ans)"
  shows "conn_inv (fst (conn_step c (Read_done ans))) \<and>
    work (fst (conn_step c (Read_done ans))) < work c"
proof -
  obtain bs ec where ans: "ans = (bs, ec)" by (cases ans)
  have w: "resolving c = None" "inside c = Some In_read"
    using assms by (auto simp: conn_inv_def split: option.splits)
  with assms ans show ?thesis
    by (auto simp: conn_inv_def work_def quiet_def conn_defs)
qed

lemma conn_step_inv_work:
  "conn_inv c \<Longrightarrow> conn_ok c e \<Longrightarrow>
     conn_inv (fst (conn_step c e)) \<and> work (fst (conn_step c e)) < work c"
  by (cases e)
    (simp_all only: resolved_step connected_step write_ready_step written_step read_ready_step read_done_step)

lemma idle_work: "conn_inv c \<Longrightarrow> idle c = (work c = 0)"
  by (auto simp: conn_inv_def idle_def work_def quiet_def split: phase_splits list.splits wait.splits)

text \<open>What can happen to a connection: the return of the call it is inside, or else its handler.\<close>

lemma inside_ok:
  assumes "inside c \<noteq> None"
  shows "\<exists>e. conn_ok c e \<and> call_returns e"
proof -
  obtain b where b: "inside c = Some b" using assms by auto
  show ?thesis
  proof (cases b)
    case (In_connect r)
    then show ?thesis using b by (intro exI [of _ "Connected False False"]) simp
  next
    case (In_write r)
    then show ?thesis using b by (intro exI [of _ "Written (0, Eof)"]) simp
  next
    case In_read
    then show ?thesis using b by (intro exI [of _ "Read_done ([], Eof)"]) simp
  qed
qed

lemma conn_ok_inside: "conn_ok c e \<Longrightarrow> call_returns e = (inside c \<noteq> None)"
  by (cases e) (auto split: option.splits)

lemma outside_ok: "conn_inv c \<Longrightarrow> inside c = None \<Longrightarrow> \<not> idle c \<Longrightarrow> \<exists>e. conn_ok c e"
  by (auto simp: conn_inv_def idle_def quiet_def split: option.splits
      intro: exI [of _ "Resolved Success True"] exI [of _ "Read_ready Success"] exI [of _ "Write_ready Success"])

lemma conn_step_inside:
  "conn_ok c e \<Longrightarrow> inside (fst (conn_step c e)) \<noteq> None \<Longrightarrow> inside c = None"
  by (cases e) (auto simp: conn_defs split: phase_splits prod.splits if_splits)

subsection \<open>The client\<close>

definition busy :: "client \<Rightarrow> nat set" where
  "busy cl = {i. i < length (connections cl) \<and> inside (connections cl ! i) \<noteq> None}"

text \<open>Besides the connections being in order, at most one handler is inside a call.\<close>

definition client_inv :: "client \<Rightarrow> bool" where
  "client_inv cl \<longleftrightarrow>
     list_all conn_inv (connections cl) \<and> (\<forall>i \<in> busy cl. \<forall>j \<in> busy cl. i = j)"

definition client_work :: "client \<Rightarrow> nat" where
  "client_work cl = sum_list (map work (connections cl))"

lemma nobody_busy: "list_all (\<lambda>c. inside c = None) (connections cl) \<longleftrightarrow> busy cl = {}"
  by (auto simp: list_all_length busy_def)

lemma busy_step:
  assumes "client_ok cl (i, e)"
  shows "busy (client_step cl (i, e)) \<subseteq> busy cl \<union> {i}"
    and "busy cl = {} \<or> i \<in> busy cl"
proof -
  show "busy (client_step cl (i, e)) \<subseteq> busy cl \<union> {i}"
    by (auto simp: busy_def nth_list_update split: prod.splits if_splits)
  show "busy cl = {} \<or> i \<in> busy cl"
    using assms conn_ok_inside [of "connections cl ! i" e] by (auto simp: nobody_busy busy_def)
qed

lemma client_inv_step: 
  assumes "client_inv cl" and "client_ok cl e"
  shows "client_inv (client_step cl e)"
proof -
  obtain i v where e: "e = (i, v)" by (cases e)
  have "list_all conn_inv (connections (client_step cl e))"
    using assms by (auto simp: e client_inv_def split: prod.splits intro!: list_all_update
        dest!: conn_step_inv_work [rotated] intro: list_all_nthD [where P = conn_inv])
  moreover have "\<forall>i \<in> busy (client_step cl e). \<forall>j \<in> busy (client_step cl e). i = j"
    using busy_step [OF assms(2) [unfolded e]] assms(1) unfolding e client_inv_def by blast
  ultimately show ?thesis by (simp add: client_inv_def)
qed

lemma client_work_step:
  assumes "client_inv cl" and "client_ok cl e"
  shows "client_work (client_step cl e) < client_work cl"
proof -
  obtain i v where e: "e = (i, v)" by (cases e)
  let ?c = "connections cl ! i"
  have i: "i < length (connections cl)" and ok: "conn_ok ?c v"
    using assms(2) by (simp_all add: e)
  have "work (fst (conn_step ?c v)) < work ?c"
    using conn_step_inv_work [OF _ ok] assms(1) i list_all_nthD [of conn_inv]
    by (simp add: client_inv_def)
  moreover have "work ?c \<le> client_work cl"
    using i by (auto simp: client_work_def intro!: member_le_sum_list)
  ultimately show ?thesis
    using i by (auto simp: e client_work_def map_update sum_list_update split: prod.splits)
qed

interpretation cl: bounded_machine client_step client_ok client_inv client_work
  by unfold_locales (auto intro: client_inv_step client_work_step)

lemma client_inv_main: "client_inv main_requests"
proof -
  have "busy main_requests = {}"
    unfolding nobody_busy [symmetric]
    by (simp add: main_requests_def send_request_def new_client_def new_connection_def)
  then show ?thesis
    by (simp add: client_inv_def) (simp add: main_requests_def send_request_def new_client_def conn_inv_new)
qed

lemma client_work_main: "client_work main_requests = 18"
  by (simp add: client_work_def main_requests_def send_request_def new_client_def
      new_connection_def work_def)

text \<open>As long as \<^verbatim>\<open>run()\<close> is not over something can happen.\<close>

lemma over_iff_stuck:
  assumes "client_inv cl"
  shows "run_over cl = (\<nexists>e. client_ok cl e)"
proof
  assume over: "run_over cl"
  have "\<not> conn_ok c v" if "idle c" for c v
    using that by (cases v) (simp_all add: idle_def)
  with over show "\<nexists>e. client_ok cl e" by (auto simp: run_over_def list_all_length)
next
  assume stuck: "\<nexists>e. client_ok cl e"
  show "run_over cl"
  proof (rule ccontr)
    assume "\<not> run_over cl"
    then obtain i where i: "\<not> thrown cl" "i < length (connections cl)" "\<not> idle (connections cl ! i)"
      by (auto simp: run_over_def list_all_length)
    have "conn_inv (connections cl ! i)" using assms i(2) by (simp add: client_inv_def list_all_length)
    show False
    proof (cases "busy cl = {}")
      case True
      then have "inside (connections cl ! i) = None" using i(2) by (auto simp: busy_def)
      then obtain e where "conn_ok (connections cl ! i) e"
        using outside_ok [OF \<open>conn_inv (connections cl ! i)\<close>] i(3) by blast
      then have "client_ok cl (i, e)" using i True by (simp add: nobody_busy)
      with stuck show False by blast
    next
      case False
      then obtain j where j: "j < length (connections cl)" "inside (connections cl ! j) \<noteq> None"
        by (auto simp: busy_def)
      then obtain e where "conn_ok (connections cl ! j) e" "call_returns e" using inside_ok by blast
      then have "client_ok cl (j, e)" using i(1) j(1) by simp
      with stuck show False by blast
    qed
  qed
qed

text \<open>While a connection is inside a call, only the return of that call can be next.\<close>

lemma blocked_ok:
  assumes "client_inv cl" and "i \<in> busy cl" and "client_ok cl (j, e)"
  shows "j = i \<and> call_returns e"
proof -
  have "j \<in> busy cl" using busy_step(2) [OF assms(3)] assms(2) by blast
  then show ?thesis
    using assms conn_ok_inside [of "connections cl ! j" e] by (auto simp: client_inv_def busy_def)
qed

lemma conn_step_wanted: "wanted (fst (conn_step c e)) = wanted c"
  by (cases e) (auto simp: conn_defs split: phase_splits prod.splits)

lemma client_step_all:
  assumes "list_all P (connections s)" and "client_ok s e"
    and "\<And>c v. P c \<Longrightarrow> P (fst (conn_step c v))"
  shows "list_all P (connections (client_step s e))"
proof -
  obtain i v where e: "e = (i, v)" by (cases e)
  obtain c t where c: "conn_step (connections s ! i) v = (c, t)" by (cases "conn_step (connections s ! i) v")
  have "P (connections s ! i)" using assms(1,2) e by (simp add: list_all_length)
  then have "P c" using assms(3) [of "connections s ! i" v] by (simp add: c)
  then show ?thesis using assms(1) by (simp add: e c list_all_update)
qed

lemma conn_step_open:
  "conn_inv c \<Longrightarrow> conn_ok c e \<Longrightarrow> socket_open c \<Longrightarrow> socket_open (fst (conn_step c e))"
  by (cases e) (auto simp: conn_inv_def conn_defs split: phase_splits prod.splits)

section \<open>Properties of the asynchronous client\<close>

text \<open>
  C23. The three requests of \<^verbatim>\<open>main\<close> lead to at most 18 steps, handlers that start and blocking calls that
  return, in any order the library may choose, and every run goes on to one after which \<^verbatim>\<open>run()\<close> is over. It is over
  exactly when no step is possible; but while a handler is inside a call, the only step is the return of that call: a
  server that keeps the connection open in \<^verbatim>\<open>asio::read\<close> holds up all other requests.
\<close>

theorem client_run_ends_or_blocks:
  assumes "legal_events client_ok client_step main_requests es"
    and "cl = run_events client_step main_requests es"
  shows "length es \<le> 18 \<and>
    (\<exists>fs. legal_events client_ok client_step cl fs \<and> run_over (run_events client_step cl fs)) \<and>
    run_over cl = (\<nexists>e. client_ok cl e) \<and>
    (i \<in> busy cl \<and> client_ok cl (j, e) \<longrightarrow> j = i \<and> call_returns e)"
proof -
  have inv: "client_inv cl" unfolding assms(2) using assms(1) by (rule cl.run_inv [OF client_inv_main])
  have "length es \<le> 18"
    using cl.run_bounded [OF client_inv_main assms(1)] by (simp add: client_work_main)
  moreover obtain fs where fs: "legal_events client_ok client_step cl fs"
      "\<nexists>e. client_ok (run_events client_step cl fs) e"
    using cl.run_completes [OF inv] by blast
  moreover have "run_over (run_events client_step cl fs)"
    using over_iff_stuck [OF cl.run_inv [OF inv fs(1)]] fs(2) by blast
  ultimately show ?thesis using over_iff_stuck [OF inv] blocked_ok [OF inv] by blast
qed

theorem client_run_ends_or_blocks_witness:
  "let cl = run_events client_step main_requests
       [(1, Resolved Success False), (1, Connected True True), (1, Write_ready Success)] in
   \<not> run_over cl \<and> \<not> client_ok cl (0, Resolved Success False) \<and>
   client_ok cl (1, Written (length request_text, Success))"
proof -
  let ?es = "[(1, Resolved Success False), (1, Connected True True), (1, Write_ready Success)]"
  let ?cl = "run_events client_step main_requests ?es"
  have legal: "legal_events client_ok client_step main_requests ?es"
    by (simp add: main_requests_def send_request_def new_client_def new_connection_def
        new_session_def conn_defs)
  have busy: "1 \<in> busy ?cl"
    by (simp add: busy_def main_requests_def send_request_def new_client_def new_connection_def
        new_session_def conn_defs)
  have ok: "client_ok ?cl (1, Written (length request_text, Success))"
    by (simp add: main_requests_def send_request_def new_client_def new_connection_def
        new_session_def conn_defs)
  note run = client_run_ends_or_blocks [OF legal refl]
  have "\<not> client_ok ?cl (0, Resolved Success False)"
    using run [of 1 0 "Resolved Success False"] busy by simp
  moreover have "\<not> run_over ?cl" using run ok by blast
  ultimately show ?thesis using ok unfolding Let_def by blast
qed

text \<open>
  C25. No response without a request: in every run each connection has sent a prefix of the
  request of \<^verbatim>\<open>main\<close>, and it waits for a response or holds one only if that prefix is not empty.
\<close>

theorem client_request_before_response:
  assumes "legal_events client_ok client_step main_requests es"
    and "c \<in> set (connections (run_events client_step main_requests es))"
  shows "prefix (sent c) request_text \<and>
    (Wait_read \<in> set (waits c) \<or> read_buffer (session c) \<noteq> [] \<longrightarrow> sent c \<noteq> [])"
proof -
  let ?cl = "run_events client_step main_requests es"
  have "client_inv ?cl" using assms(1) by (rule cl.run_inv [OF client_inv_main])
  then have inv: "conn_inv c" using assms(2) by (simp add: client_inv_def list_all_iff)
  have "list_all (\<lambda>c. wanted c = request_text) (connections ?cl)"
  proof (rule cl.run_stays [OF _ client_inv_main assms(1)])
    show "list_all (\<lambda>c. wanted c = request_text) (connections main_requests)"
      by (simp add: main_requests_def send_request_def new_client_def new_connection_def)
  qed (auto intro: client_step_all simp: conn_step_wanted)
  then have "wanted c = request_text" using assms(2) by (simp add: list_all_iff)
  then show ?thesis using inv by (auto simp: conn_inv_def quiet_def split: phase_splits)
qed

theorem client_request_before_response_witness:
  "prefix (sent (connections (run_events client_step main_requests
      [(1, Resolved Success False), (1, Connected True True), (1, Write_ready Success),
       (1, Written (5, Other 104))]) ! 1)) request_text"
proof -
  let ?es = "[(1, Resolved Success False), (1, Connected True True), (1, Write_ready Success),
       (1, Written (5, Other 104))]"
  let ?cl = "run_events client_step main_requests ?es"
  have legal: "legal_events client_ok client_step main_requests ?es"
    by (simp add: main_requests_def send_request_def new_client_def new_connection_def
        new_session_def conn_defs request_text_def)
  have "length (connections ?cl) = 3"
    by (simp add: main_requests_def send_request_def new_client_def split: prod.splits)
  then have "connections ?cl ! 1 \<in> set (connections ?cl)" by simp
  from client_request_before_response [OF legal this] show ?thesis by simp
qed

text \<open>
  The client never closes a connection it has opened: once a socket is connected it stays
  open in every continuation of the run, through failed waits, failed writes and the end
  of the response.
\<close>

theorem client_never_closes:
  assumes "client_inv cl" and "legal_events client_ok client_step cl es"
    and "i < length (connections cl)" and "socket_open (connections cl ! i)"
  shows "socket_open (connections (run_events client_step cl es) ! i)"
proof -
  let ?P = "\<lambda>cl. i < length (connections cl) \<and> socket_open (connections cl ! i)"
  have "?P (client_step s e)" if "client_inv s" "client_ok s e" "?P s" for s e
  proof -
    obtain j v where e: "e = (j, v)" by (cases e)
    have "conn_inv (connections s ! j)" and "conn_ok (connections s ! j) v"
      using that(1,2) by (simp_all add: e client_inv_def list_all_length)
    then show ?thesis
      using that(3) conn_step_open [of "connections s ! j" v]
      by (cases "j = i") (auto simp: e split: prod.splits)
  qed
  with cl.run_stays [of ?P, OF _ assms(1,2)] show ?thesis using assms(3,4) by blast
qed

theorem client_never_closes_witness:
  "socket_open (connections (run_events client_step
     (run_events client_step main_requests [(0, Resolved Success False), (0, Connected True True)])
     [(0, Write_ready (Other 9))]) ! 0)"
proof -
  let ?cl = "run_events client_step main_requests [(0, Resolved Success False), (0, Connected True True)]"
  have ok: "legal_events client_ok client_step main_requests [(0, Resolved Success False), (0, Connected True True)]"
    by (simp add: main_requests_def send_request_def new_client_def new_connection_def conn_defs)
  have inv: "client_inv ?cl" by (rule cl.run_inv [OF client_inv_main ok])
  have "legal_events client_ok client_step ?cl [(0, Write_ready (Other 9))]"
    by (simp add: main_requests_def send_request_def new_client_def new_connection_def
        new_session_def conn_defs)
  from client_never_closes [OF inv this, of 0] show ?thesis
    by (simp add: main_requests_def send_request_def new_client_def new_connection_def
        new_session_def conn_defs)
qed

end
