(* ===== verification/Async_Client2.thy ===== *)
theory Async_Client2
  imports Event_Machine Cpp_Std "HOL-Library.Multiset"
begin

section \<open>The client with response callbacks (cpp/async/nonblocking/client2.cpp)\<close>

text \<open>
  \<^verbatim>\<open>post_request\<close> queues a handler that starts the asynchronous request and then runs one more
  handler of the same \<^verbatim>\<open>io_context\<close> from inside; the resolve handler does the rest of the
  exchange synchronously and calls the response callback. The state holds the queue of
  posted handlers, the resolve operations under way, the 16-bit connection counter, and what was
  printed and delivered. A callback is named by a number; \<open>None\<close> is \<^verbatim>\<open>nullptr\<close>.
\<close>

subsection \<open>State\<close>

datatype log_line =
    Created u16
  | Error_resolving u16
  | Resolved_host u16
  | Closed_connection u16
  | Request_write u16
  | Failed u16 error_code
  | Response_read u16

record pending =
  conn_id :: u16
  request :: string
  callback :: "nat option"

record client =
  ready :: "(string \<times> nat option) list"
  resolving :: "pending list"
  next_id :: u16
  log :: "log_line list"
  responses :: "(nat \<times> string) list"
  thrown :: bool
  stopped :: bool
  blocked :: bool

definition new_client :: client where
  "new_client =
     \<lparr>ready = [], resolving = [], next_id = 1, log = [], responses = [],
      thrown = False, stopped = False, blocked = False\<rparr>"

subsection \<open>The resolve handler\<close>

text \<open>
  What the library answers in the course of one resolve handler: the result of the resolution,
  whether \<^verbatim>\<open>asio::connect\<close> succeeds (it throws otherwise), \<^verbatim>\<open>is_open()\<close>, the error code of
  \<^verbatim>\<open>asio::write\<close>, the bytes and the error code of \<^verbatim>\<open>asio::read\<close>.
\<close>

record net_answer =
  resolve_ec :: error_code
  results_empty :: bool
  connects :: bool
  is_open :: bool
  write_ec :: error_code
  read_data :: string
  read_ec :: error_code

definition bad :: "error_code \<Rightarrow> bool" where
  "bad ec \<longleftrightarrow> failed ec \<and> ec \<noteq> Eof"

definition on_resolved ::
  "pending \<Rightarrow> net_answer \<Rightarrow> log_line list \<times> (nat \<times> string) list \<times> bool" where
  "on_resolved p a =
     (let i = conn_id p in
      if failed (resolve_ec a) \<or> results_empty a then ([Error_resolving i], [], False)
      else if \<not> connects a then ([Resolved_host i], [], True)
      else if \<not> is_open a then ([Resolved_host i, Closed_connection i], [], False)
      else if bad (write_ec a)
        then ([Resolved_host i, Request_write i, Failed i (write_ec a)], [], False)
      else if bad (read_ec a)
        then ([Resolved_host i, Request_write i, Response_read i, Failed i (read_ec a)], [], False)
      else ([Resolved_host i, Request_write i, Response_read i],
            (case callback p of None \<Rightarrow> [] | Some f \<Rightarrow> [(f, c_str (read_data a))]), False))"

text \<open>
  \<^verbatim>\<open>asio::connect\<close>, \<^verbatim>\<open>asio::write\<close> and \<^verbatim>\<open>asio::read\<close> block the thread of the \<^verbatim>\<open>io_context\<close>, and need not return:
  \<^verbatim>\<open>asio::read\<close> does not as long as the server keeps the connection open. A run of the resolve handler
  is answered to its end, or hangs in one of the three calls, after a successful resolution, with what it has
  printed by then.
\<close>

datatype exchange = Answered net_answer | Hangs_connecting | Hangs_writing | Hangs_reading

fun hangs :: "exchange \<Rightarrow> bool" where
  "hangs (Answered a) = False"
| "hangs x = True"

fun lines_until_hang :: "u16 \<Rightarrow> exchange \<Rightarrow> log_line list" where
  "lines_until_hang i (Answered a) = []"
| "lines_until_hang i Hangs_connecting = [Resolved_host i]"
| "lines_until_hang i Hangs_writing = [Resolved_host i, Request_write i]"
| "lines_until_hang i Hangs_reading = [Resolved_host i, Request_write i, Response_read i]"

definition resolve_handler_run ::
  "pending \<Rightarrow> exchange \<Rightarrow> log_line list \<times> (nat \<times> string) list \<times> bool" where
  "resolve_handler_run p x =
     (case x of Answered a \<Rightarrow> on_resolved p a | _ \<Rightarrow> (lines_until_hang (conn_id p) x, [], False))"

subsection \<open>The client\<close>

definition async_request :: "string \<Rightarrow> nat option \<Rightarrow> client \<Rightarrow> client" where
  "async_request r f cl =
     cl\<lparr>log := log cl @ [Created (next_id cl)],
        resolving := resolving cl @ [\<lparr>conn_id = next_id cl, request = r, callback = f\<rparr>],
        next_id := next_id cl + 1\<rparr>"

definition post_request :: "string \<Rightarrow> nat option \<Rightarrow> client \<Rightarrow> client" where
  "post_request r f cl = cl\<lparr>ready := ready cl @ [(r, f)]\<rparr>"

definition stop :: "client \<Rightarrow> client" where
  "stop cl = cl\<lparr>stopped := True\<rparr>"

text \<open>One resolve operation, chosen by the library, completes and its handler runs.\<close>

definition complete :: "nat \<times> exchange \<Rightarrow> client \<Rightarrow> client" where
  "complete ev cl =
     (case ev of (k, x) \<Rightarrow>
        if k < length (resolving cl) then
          (case resolve_handler_run (resolving cl ! k) x of (ls, rs, t) \<Rightarrow>
             cl\<lparr>resolving := take k (resolving cl) @ drop (Suc k) (resolving cl),
                log := log cl @ ls, responses := responses cl @ rs, thrown := t, blocked := hangs x\<rparr>)
        else cl)"

text \<open>
  \<^verbatim>\<open>ctx_.run_one()\<close>: the queue is first in first out and completions join it at the end, so
  a posted handler at the front runs; its last statement is again \<^verbatim>\<open>ctx_.run_one()\<close>. With no
  posted handler left it waits for a completion.
\<close>

function run_one :: "client \<Rightarrow> nat \<times> exchange \<Rightarrow> client" where
  "run_one cl ev =
     (if stopped cl then cl
      else case ready cl of
          [] \<Rightarrow> complete ev cl
        | (r, f) # hs \<Rightarrow> run_one (async_request r f (cl\<lparr>ready := hs\<rparr>)) ev)"
  by pat_completeness auto
termination
  by (relation "measure (\<lambda>(cl, ev). length (ready cl))") (auto simp: async_request_def)

declare run_one.simps [simp del]

fun run_ok :: "client \<Rightarrow> nat \<times> exchange \<Rightarrow> bool" where
  "run_ok cl (k, x) \<longleftrightarrow>
     \<not> stopped cl \<and> \<not> thrown cl \<and> \<not> blocked cl \<and> k < length (ready cl) + length (resolving cl)"

text \<open>
  \<^verbatim>\<open>main\<close>: the request for the target on the command line, posted three times, the third time
  without a callback, then \<^verbatim>\<open>run()\<close>.
\<close>

definition request_for :: "string \<Rightarrow> string" where
  "request_for target =
     ''GET '' @ c_str target @ '' HTTP/1.1'' @ crlf @ ''Host: 127.0.0.1:8080'' @ crlf @
     ''Accept: */*'' @ crlf @ ''Connection: keep-alive'' @ crlf @ crlf"

definition main_posts :: "string \<Rightarrow> client" where
  "main_posts target =
     post_request (request_for target) None
       (post_request (request_for target) (Some 2)
         (post_request (request_for target) (Some 1) new_client))"

text \<open>\<^verbatim>\<open>run()\<close> is over: by an exception, or since nothing is left to do.\<close>

definition run_over :: "client \<Rightarrow> bool" where
  "run_over cl = (thrown cl \<or> \<not> blocked cl \<and> ready cl = [] \<and> resolving cl = [])"

text \<open>
  \<^verbatim>\<open>std::terminate\<close> is called when the text is no address, since the address is parsed (by
  \<^verbatim>\<open>address::from_string\<close>, which throws) outside the \<^verbatim>\<open>try\<close> block.
\<close>

datatype main_end = Status int | Terminated | Still_running

definition exit_code ::
  "(string \<Rightarrow> bool) \<Rightarrow> string list \<Rightarrow> (nat \<times> exchange) list \<Rightarrow> main_end" where
  "exit_code valid_ip argv evs =
     (let cl = run_events run_one (main_posts (argv ! 3)) evs in
      if length argv \<noteq> 4 then Status 1
      else if \<not> valid_ip (argv ! 1) then Terminated
      else if \<not> run_over cl then Still_running
      else Status (if thrown cl then 1 else 0))"

subsection \<open>Runs of posted handlers\<close>

text \<open>
  The nested calls of \<^verbatim>\<open>run_one\<close> start every posted request, in order, before the first completion
  runs.
\<close>

fun start_all :: "(string \<times> nat option) list \<Rightarrow> client \<Rightarrow> client" where
  "start_all [] cl = cl"
| "start_all ((r, f) # hs) cl = start_all hs (async_request r f cl)"

lemma async_request_simps [simp]:
  "ready (async_request r f cl) = ready cl" "stopped (async_request r f cl) = stopped cl"
  "blocked (async_request r f cl) = blocked cl"
  "thrown (async_request r f cl) = thrown cl" "responses (async_request r f cl) = responses cl"
  "(async_request r f cl)\<lparr>ready := hs\<rparr> = async_request r f (cl\<lparr>ready := hs\<rparr>)"
  by (simp_all add: async_request_def)

lemma start_all_simps [simp]:
  "ready (start_all hs cl) = ready cl" "stopped (start_all hs cl) = stopped cl"
  "blocked (start_all hs cl) = blocked cl"
  "thrown (start_all hs cl) = thrown cl" "responses (start_all hs cl) = responses cl"
  by (induction hs cl rule: start_all.induct) simp_all

lemma run_one_stopped: "stopped cl \<Longrightarrow> run_one cl ev = cl"
  by (simp add: run_one.simps)

lemma run_one_start_all:
  "\<not> stopped cl \<Longrightarrow> run_one cl ev = complete ev (start_all (ready cl) (cl\<lparr>ready := []\<rparr>))"
proof (induction cl ev rule: run_one.induct)
  case (1 cl ev)
  show ?case
  proof (cases "ready cl")
    case Nil
    then have cl: "cl\<lparr>ready := []\<rparr> = cl" by simp
    have "run_one cl ev = complete ev cl"
      using 1 Nil by (simp add: run_one.simps [of cl ev])
    then show ?thesis by (simp only: Nil cl start_all.simps)
  next
    case (Cons h hs)
    obtain r f where h: "h = (r, f)" by (cases h)
    have "run_one (async_request r f (cl\<lparr>ready := hs\<rparr>)) ev =
        complete ev (start_all hs (async_request r f (cl\<lparr>ready := []\<rparr>)))"
      using "1.IH" [OF "1.prems" Cons h [symmetric]] "1.prems" by simp
    with Cons h 1 show ?thesis by (simp add: run_one.simps [of cl ev])
  qed
qed

definition outstanding :: "client \<Rightarrow> nat option multiset" where
  "outstanding cl = mset (map snd (ready cl)) + mset (map callback (resolving cl))"

definition called :: "client \<Rightarrow> nat option multiset" where
  "called cl = mset (map (\<lambda>x. Some (fst x)) (responses cl))"

definition client_work :: "client \<Rightarrow> nat" where
  "client_work cl = length (ready cl) + length (resolving cl)"

lemma start_all_outstanding:
  "outstanding (start_all hs cl) = mset (map snd hs) + outstanding cl"
  by (induction hs cl rule: start_all.induct)
    (simp_all add: outstanding_def async_request_def)

lemma start_all_length: "length (resolving (start_all hs cl)) = length hs + length (resolving cl)"
  by (induction hs cl rule: start_all.induct) (simp_all add: async_request_def)

lemma mset_remove_nth:
  "k < length xs \<Longrightarrow> mset xs = add_mset (xs ! k) (mset (take k xs @ drop (Suc k) xs))"
  by (metis id_take_nth_drop mset.simps(2) mset_append union_mset_add_mset_right)

lemma complete_calls:
  assumes "k < length (resolving cl)"
  shows "called (complete (k, x) cl) + outstanding (complete (k, x) cl) \<subseteq>#
    called cl + outstanding cl"
proof -
  have "mset (map callback (resolving cl)) =
      add_mset (callback (resolving cl ! k))
        (mset (map callback (take k (resolving cl) @ drop (Suc k) (resolving cl))))"
    using mset_remove_nth [of k "map callback (resolving cl)"] assms
    by (simp add: take_map drop_map)
  then show ?thesis
    using assms
    by (cases x) (auto simp: complete_def resolve_handler_run_def on_resolved_def called_def outstanding_def Let_def
        split: option.splits)
qed

lemma run_one_calls:
  assumes "run_ok cl ev"
  shows "called (run_one cl ev) + outstanding (run_one cl ev) \<subseteq># called cl + outstanding cl"
proof -
  obtain k a where ev: "ev = (k, a)" by (cases ev)
  let ?cl = "start_all (ready cl) (cl\<lparr>ready := []\<rparr>)"
  have "k < length (resolving ?cl)" using assms ev by (simp add: start_all_length)
  from complete_calls [OF this] show ?thesis
    using assms ev
    by (simp add: run_one_start_all start_all_outstanding called_def [of ?cl] called_def [of cl])
      (simp add: outstanding_def)
qed

lemma run_one_work:
  assumes "run_ok cl ev"
  shows "client_work (run_one cl ev) < client_work cl"
proof -
  obtain k a where ev: "ev = (k, a)" by (cases ev)
  let ?cl = "start_all (ready cl) (cl\<lparr>ready := []\<rparr>)"
  have "k < length (resolving ?cl)" using assms ev by (simp add: start_all_length)
  then show ?thesis
    using assms ev
    by (auto simp: run_one_start_all complete_def client_work_def start_all_length
        split: prod.splits)
qed

text \<open>Nobody stops the context of \<^verbatim>\<open>main\<close>, and the client is blocked exactly by a call that does not return.\<close>

lemma run_one_flags:
  assumes "run_ok cl ev"
  shows "stopped (run_one cl ev) = stopped cl" "blocked (run_one cl ev) = hangs (snd ev)"
proof -
  obtain k x where ev: "ev = (k, x)" by (cases ev)
  let ?cl = "start_all (ready cl) (cl\<lparr>ready := []\<rparr>)"
  have "k < length (resolving ?cl)" using assms ev by (simp add: start_all_length)
  then show "stopped (run_one cl ev) = stopped cl" "blocked (run_one cl ev) = hangs (snd ev)"
    using assms by (auto simp: ev run_one_start_all complete_def split: prod.splits)
qed

interpretation cb: bounded_machine run_one run_ok "\<lambda>cl. \<not> stopped cl" client_work
  by unfold_locales (simp_all add: run_one_work run_one_flags)

lemma run_blocked:
  assumes "legal_events run_ok run_one cl es" and "\<not> blocked cl"
  shows "blocked (run_events run_one cl es) = list_ex (\<lambda>ev. hangs (snd ev)) es"
  using assms
proof (induction es arbitrary: cl)
  case (Cons ev es)
  then have step: "blocked (run_one cl ev) = hangs (snd ev)" by (simp add: run_one_flags)
  show ?case
  proof (cases "hangs (snd ev)")
    case True
    then have "es = []" using Cons.prems step by (cases es; cases "hd es") auto
    then show ?thesis using True step by simp
  next
    case False
    then show ?thesis using Cons step by simp
  qed
qed simp

lemma run_stuck:
  assumes "\<not> stopped cl"
  shows "(\<nexists>ev. run_ok cl ev) = (run_over cl \<or> blocked cl)"
proof -
  have "(\<exists>ev. run_ok cl ev) = (\<not> thrown cl \<and> \<not> blocked cl \<and> 0 < length (ready cl) + length (resolving cl))"
    using assms by (auto intro: exI [of _ 0])
  then show ?thesis by (auto simp: run_over_def)
qed


subsection \<open>Connection numbers\<close>

fun created :: "log_line list \<Rightarrow> u16 list" where
  "created [] = []"
| "created (Created i # ls) = i # created ls"
| "created (l # ls) = created ls"

lemma created_append: "created (ls @ ls') = created ls @ created ls'"
  by (induction ls rule: created.induct) simp_all

lemma created_complete: "created (log (complete ev cl)) = created (log cl)"
  by (cases "snd ev")
    (auto simp: complete_def resolve_handler_run_def on_resolved_def created_append Let_def
      split: prod.splits if_splits option.splits)

lemma created_start_all:
  "created (log (start_all hs cl)) =
     created (log cl) @ map (\<lambda>i. next_id cl + of_nat i) [0..<length hs]"
proof (induction hs cl rule: start_all.induct)
  case (1 cl)
  then show ?case by simp
next
  case (2 r f hs cl)
  have "[0..<length ((r, f) # hs)] = 0 # map Suc [0..<length hs]"
    by (simp add: upt_conv_Cons map_Suc_upt del: upt_Suc)
  then show ?case
    using 2 by (simp add: async_request_def created_append o_def add.assoc)
qed

definition post_all :: "(string \<times> nat option) list \<Rightarrow> client" where
  "post_all hs = foldl (\<lambda>cl (r, f). post_request r f cl) new_client hs"

lemma post_all_snoc: "post_all (hs @ [(r, f)]) = post_request r f (post_all hs)"
  by (simp add: post_all_def)

lemma post_all_ready: "post_all hs = new_client\<lparr>ready := hs\<rparr>"
proof (induction hs rule: rev_induct)
  case Nil
  then show ?case by (simp add: post_all_def new_client_def)
next
  case (snoc h hs)
  obtain r f where "h = (r, f)" by (cases h)
  then show ?case using snoc by (simp add: post_all_snoc post_request_def new_client_def)
qed

lemma created_run_one:
  "created (log (run_one (post_all hs) ev)) = map (\<lambda>i. of_nat (Suc i)) [0..<length hs]"
  by (simp add: run_one_start_all post_all_ready new_client_def created_complete created_start_all)

lemma distinct_u16: "distinct (map (\<lambda>i. of_nat (Suc i) :: u16) [0..<n]) \<longleftrightarrow> n \<le> 65536"
proof
  assume d: "distinct (map (\<lambda>i. of_nat (Suc i) :: u16) [0..<n])"
  show "n \<le> 65536"
  proof (rule ccontr)
    assume "\<not> n \<le> 65536"
    then have n: "0 \<in> {0..<n}" "65536 \<in> {0..<n}" by simp_all
    have "inj_on (\<lambda>i. of_nat (Suc i) :: u16) {0..<n}" using d by (simp add: distinct_map)
    from inj_onD [OF this _ n] show False by simp
  qed
next
  assume n: "n \<le> 65536"
  have "i = j" if "i < n" "j < n" "of_nat (Suc i) = (of_nat (Suc j) :: u16)" for i j
  proof -
    have "(of_nat i :: u16) = of_nat j" using that(3) by simp
    then have "unat (of_nat i :: u16) = unat (of_nat j :: u16)" by simp
    then show ?thesis using that(1,2) n by (simp add: unat_of_nat)
  qed
  then show "distinct (map (\<lambda>i. of_nat (Suc i) :: u16) [0..<n])"
    by (auto simp: distinct_map inj_on_def simp del: of_nat_Suc)
qed


lemma count_list_some:
  "count_list (map fst rs) f = count (mset (map (\<lambda>x. Some (fst x)) rs)) (Some f)"
  by (induction rs) auto

lemma called_count: "count_list (map fst (responses cl)) f = count (called cl) (Some f)"
  unfolding called_def by (rule count_list_some)

lemma run_calls:
  assumes "legal_events run_ok run_one cl es"
  shows "called (run_events run_one cl es) + outstanding (run_events run_one cl es) \<subseteq>#
    called cl + outstanding cl"
  using assms
proof (induction es arbitrary: cl)
  case Nil
  then show ?case by simp
next
  case (Cons e es)
  then show ?case
    using run_one_calls [of cl e] by (auto intro: subset_mset.order_trans)
qed

lemma main_posts_outstanding: "called (main_posts t) + outstanding (main_posts t) = {#None, Some 1, Some 2#}"
  by (simp add: main_posts_def post_request_def new_client_def outstanding_def called_def)

section \<open>Properties of the client with callbacks\<close>

text \<open>
  C31. Connections are numbered from 1 in the order the requests were posted, whichever order the
  library completes them in; the 16-bit counter makes the numbers distinct up to 65536 posted
  requests, and no further.
\<close>

theorem client2_connection_numbers:
  "created (log (run_one (post_all hs) ev)) = map (\<lambda>i. of_nat (Suc i)) [0..<length hs] \<and>
   (distinct (created (log (run_one (post_all hs) ev))) \<longleftrightarrow> length hs \<le> 65536)"
  by (simp only: created_run_one distinct_u16)

text \<open>
  C27. Every callback is called at most once, and only callbacks that were posted are called. \<^verbatim>\<open>run()\<close> starts at most three
  resolve handlers; nothing more can happen exactly when it is over, by an exception or with all
  requests done, or when a handler hangs in a blocking call; and it hangs exactly if one of the calls does
  not return.
\<close>

theorem client2_callbacks_once:
  assumes "legal_events run_ok run_one (main_posts target) es"
  shows "length es \<le> 3 \<and>
    (\<forall>f. count_list (map fst (responses (run_events run_one (main_posts target) es))) f \<le>
          (if f = 1 \<or> f = 2 then 1 else 0)) \<and>
    (let cl = run_events run_one (main_posts target) es in
     ((\<nexists>ev. run_ok cl ev) = (run_over cl \<or> blocked cl)) \<and>
     blocked cl = list_ex (\<lambda>ev. hangs (snd ev)) es)"
proof -
  let ?cl = "run_events run_one (main_posts target) es"
  have start: "\<not> stopped (main_posts target)" "\<not> blocked (main_posts target)"
    by (simp_all add: main_posts_def post_request_def new_client_def)
  have "length es \<le> 3"
    using cb.run_bounded [OF start(1) assms]
    by (simp add: client_work_def main_posts_def post_request_def new_client_def)
  moreover have "called ?cl \<subseteq># {#None, Some 1, Some 2#}"
    using subset_mset.order_trans [OF mset_subset_eq_add_left run_calls [OF assms]]
    by (simp only: main_posts_outstanding)
  then have "count_list (map fst (responses ?cl)) f \<le> count {#None, Some 1, Some 2#} (Some f)" for f
    unfolding called_count by (rule mset_subset_eq_count)
  moreover have "count {#None, Some 1, Some 2#} (Some f) \<le> (if f = 1 \<or> f = 2 then 1 else 0)"
    for f :: nat by simp
  ultimately show ?thesis
    using run_stuck [OF cb.run_inv [OF start(1) assms]] run_blocked [OF assms start(2)]
    by (simp only: Let_def) (meson order_trans)
qed

definition good_answer :: "string \<Rightarrow> net_answer" where
  "good_answer d =
     \<lparr>resolve_ec = Success, results_empty = False, connects = True, is_open = True,
      write_ec = Success, read_data = d, read_ec = Eof\<rparr>"

theorem client2_callbacks_once_witness:
  "count_list (map fst (responses (run_events run_one (main_posts ''/'')
     [(1, Answered (good_answer ''ok'')), (0, Answered (good_answer ''no''))]))) 2 \<le> 1"
proof -
  have "legal_events run_ok run_one (main_posts ''/'')
      [(1, Answered (good_answer ''ok'')), (0, Answered (good_answer ''no''))]"
    by (simp add: main_posts_def post_request_def new_client_def run_one.simps async_request_def
        complete_def resolve_handler_run_def on_resolved_def good_answer_def bad_def)
  from conjunct1 [OF conjunct2 [OF client2_callbacks_once [OF this]], rule_format, of 2]
  show ?thesis by simp
qed

text \<open>
  C28. What a callback receives: the resolve handler calls the callback of its request exactly
  when the resolution, the connection, the write and the read all succeed (end of file counts
  as success), and passes the response up to its first NUL byte. So the whole response
  arrives if and only if it holds no NUL.
\<close>

theorem client2_response:
  "(f, d) \<in> set (fst (snd (on_resolved p a))) \<longleftrightarrow>
     callback p = Some f \<and> resolve_ec a = Success \<and> \<not> results_empty a \<and> connects a \<and>
     is_open a \<and> write_ec a \<in> {Success, Eof} \<and> read_ec a \<in> {Success, Eof} \<and>
     d = c_str (read_data a) \<and> (d = read_data a \<longleftrightarrow> NUL \<notin> set (read_data a))"
  by (auto simp: on_resolved_def bad_def failed_def Let_def c_str_eq_iff split: option.splits)

end
