(* ===== verification/Printf.thy ===== *)
theory Printf
  imports Cpp_Std
begin

section \<open>Formatted output\<close>

text \<open>
  \<^verbatim>\<open>printf\<close> of the C library as far as the programs use it: text, \<^verbatim>\<open>%%\<close>, \<^verbatim>\<open>%i\<close> and \<^verbatim>\<open>%d\<close>, \<^verbatim>\<open>%u\<close>,
  \<^verbatim>\<open>%lu\<close>, \<^verbatim>\<open>%s\<close>. The arguments are untyped for the callee: a conversion that finds an argument of another
  kind, or none, is undefined (\<open>None\<close>). Other conversions, with flags or a width, are outside of the
  model; with no argument at all, where the format is data, every conversion is undefined and the model is exact. \<open>Object_arg\<close> is
  an object of a class passed through the variable arguments, \<open>Pointer_arg\<close> a pointer to something that is no string:
  a null pointer or one to an object.
\<close>

datatype arg = Int_arg int | Uint_arg nat | Ulong_arg nat | Str_arg string | Object_arg | Pointer_arg

datatype arg_type = T_int | T_uint | T_ulong | T_str | T_object | T_pointer

fun type_of_arg :: "arg \<Rightarrow> arg_type" where
  "type_of_arg (Int_arg i) = T_int"
| "type_of_arg (Uint_arg n) = T_uint"
| "type_of_arg (Ulong_arg n) = T_ulong"
| "type_of_arg (Str_arg s) = T_str"
| "type_of_arg Object_arg = T_object"
| "type_of_arg Pointer_arg = T_pointer"

datatype directive = Literal char | Conversion arg_type

text \<open>The conversion that starts a text, after its percent sign.\<close>

fun conversion :: "string \<Rightarrow> (directive \<times> string) option" where
  "conversion [] = None"
| "conversion (c # s) =
     (if c = CHR ''%'' then Some (Literal c, s)
      else if c = CHR ''i'' \<or> c = CHR ''d'' then Some (Conversion T_int, s)
      else if c = CHR ''u'' then Some (Conversion T_uint, s)
      else if c = CHR ''s'' then Some (Conversion T_str, s)
      else if c = CHR ''l'' \<and> take 1 s = ''u'' then Some (Conversion T_ulong, drop 1 s)
      else None)"

lemma conversion_shorter: "conversion s = Some (d, r) \<Longrightarrow> length r < length s"
  by (cases s) (auto split: if_splits)

function directives :: "string \<Rightarrow> directive list option" where
  "directives [] = Some []"
| "directives (c # s) =
     (if c \<noteq> CHR ''%'' then map_option (Cons (Literal c)) (directives s)
      else case conversion s of
          None \<Rightarrow> None
        | Some (d, r) \<Rightarrow> map_option (Cons d) (directives r))"
  by pat_completeness auto
termination
  by (relation "measure length") (auto dest: conversion_shorter)

definition dec_of_int :: "int \<Rightarrow> string" where
  "dec_of_int i = (if i < 0 then CHR ''-'' # dec_of_nat (nat (- i)) else dec_of_nat (nat i))"

text \<open>A signed and an unsigned argument stand for each other where both types have the value.\<close>

fun show_arg :: "arg_type \<Rightarrow> arg \<Rightarrow> string option" where
  "show_arg T_int (Int_arg i) = Some (dec_of_int i)"
| "show_arg T_int (Uint_arg n) = (if n < 2 ^ 31 then Some (dec_of_nat n) else None)"
| "show_arg T_uint (Uint_arg n) = Some (dec_of_nat n)"
| "show_arg T_uint (Int_arg i) = (if 0 \<le> i then Some (dec_of_int i) else None)"
| "show_arg T_ulong (Ulong_arg n) = Some (dec_of_nat n)"
| "show_arg T_str (Str_arg s) = Some (c_str s)"
| "show_arg t a = None"

fun print_directives :: "directive list \<Rightarrow> arg list \<Rightarrow> string option" where
  "print_directives [] args = Some []"
| "print_directives (Literal c # ds) args = map_option (Cons c) (print_directives ds args)"
| "print_directives (Conversion t # ds) [] = None"
| "print_directives (Conversion t # ds) (a # args) =
     (case show_arg t a of
        None \<Rightarrow> None
      | Some s \<Rightarrow> map_option (append s) (print_directives ds args))"

definition printf :: "string \<Rightarrow> arg list \<Rightarrow> string option" where
  "printf format args = Option.bind (directives (c_str format)) (\<lambda>ds. print_directives ds args)"

subsection \<open>The type of a format\<close>

fun wanted :: "directive list \<Rightarrow> arg_type list" where
  "wanted [] = []"
| "wanted (Literal c # ds) = wanted ds"
| "wanted (Conversion t # ds) = t # wanted ds"

definition well_typed :: "string \<Rightarrow> arg_type list \<Rightarrow> bool" where
  "well_typed format ts =
     (case directives (c_str format) of
        None \<Rightarrow> False
      | Some ds \<Rightarrow> list_all (\<lambda>t. t \<noteq> T_object \<and> t \<noteq> T_pointer) ts \<and> prefix (wanted ds) ts)"

lemma show_arg_typed: "type_of_arg a = t \<Longrightarrow> t \<noteq> T_object \<Longrightarrow> t \<noteq> T_pointer \<Longrightarrow> \<exists>s. show_arg t a = Some s"
  by (cases a) auto

lemma print_directives_typed:
  assumes "prefix (wanted ds) (map type_of_arg args)"
    and "list_all (\<lambda>a. type_of_arg a \<noteq> T_object \<and> type_of_arg a \<noteq> T_pointer) args"
  shows "\<exists>s. print_directives ds args = Some s"
  using assms
proof (induction ds args rule: print_directives.induct)
  case (4 t ds a args)
  then have "type_of_arg a = t" "type_of_arg a \<noteq> T_object" "type_of_arg a \<noteq> T_pointer" by auto
  then obtain s where "show_arg t a = Some s" using show_arg_typed by blast
  with 4 show ?case by auto
qed auto

lemma printf_sound:
  assumes "well_typed format (map type_of_arg args)"
  shows "\<exists>s. printf format args = Some s"
proof -
  obtain ds where ds: "directives (c_str format) = Some ds" "prefix (wanted ds) (map type_of_arg args)"
      "list_all (\<lambda>a. type_of_arg a \<noteq> T_object \<and> type_of_arg a \<noteq> T_pointer) args"
    using assms by (auto simp: well_typed_def list.pred_map comp_def split: option.splits)
  from print_directives_typed [OF ds(2,3)] show ?thesis by (simp add: printf_def ds(1))
qed

text \<open>A conversion that finds an object, or that nothing was passed for, is undefined.\<close>

lemma print_directives_object:
  "print_directives ds args = Some s \<Longrightarrow> Object_arg \<in> set (take (length (wanted ds)) args) \<Longrightarrow> False"
proof (induction ds args arbitrary: s rule: print_directives.induct)
  case (4 t ds a args)
  have "show_arg t Object_arg = None" by (cases t) simp_all
  with 4 show ?case by (auto split: option.splits)
qed auto

lemma print_directives_enough:
  "print_directives ds args = Some s \<Longrightarrow> length (wanted ds) \<le> length args"
  by (induction ds args arbitrary: s rule: print_directives.induct) (auto split: option.splits)

subsection \<open>A format without conversions\<close>

lemma plain_format: "CHR ''%'' \<notin> set s \<Longrightarrow> NUL \<notin> set s \<Longrightarrow> printf s args = Some s"
proof -
  assume "CHR ''%'' \<notin> set s" and "NUL \<notin> set s"
  from this(1) have "directives s = Some (map Literal s)" by (induction s) auto
  moreover have "print_directives (map Literal s) args = Some s" by (induction s) simp_all
  ultimately show ?thesis using \<open>NUL \<notin> set s\<close> by (simp add: printf_def c_str_id)
qed

lemma printf_no_args:
  "printf format [] = Some t \<Longrightarrow> well_typed format []"
  using print_directives_enough
  by (fastforce simp: printf_def well_typed_def split: Option.bind_splits)

text \<open>Text in front of a format.\<close>

lemma directives_text:
  "CHR ''%'' \<notin> set s \<Longrightarrow> directives (s @ f) = map_option (append (map Literal s)) (directives f)"
proof (induction s)
  case (Cons c s)
  then show ?case by (cases "directives f") auto
qed (cases "directives f"; simp)

lemma wanted_append: "wanted (ds @ es) = wanted ds @ wanted es"
  by (induction ds rule: wanted.induct) simp_all

lemma wanted_text [simp]: "wanted (map Literal s) = []"
  by (induction s) simp_all

lemma well_typed_text:
  assumes "CHR ''%'' \<notin> set s" and "NUL \<notin> set s"
  shows "well_typed (s @ f) ts = well_typed f ts"
  using assms
  by (cases "directives (c_str f)") (simp_all add: well_typed_def c_str_append directives_text wanted_append)

end
