(* ===== verification/Http_Request.thy ===== *)
theory Http_Request
  imports Printf
begin

section \<open>HTTP requests of the RESTinio clients (cpp/restinio/client.cpp, client\_custom\_http\_methods.cpp)\<close>

text \<open>
  Building the request text, choosing the method, reading the response. RESTinio's tables
  (the names of methods and header fields, the default version of a request header) and
  the HTTP parser are library code: parameters of the definitions. A reference reader of HTTP/1.1
  messages states what a server understands of the text.
\<close>

subsection \<open>The request text\<close>

record http_header =
  method_name :: string
  request_target :: string
  http_major :: nat
  http_minor :: nat

datatype connection_header = Keep_alive | Close | Upgrade

datatype http_error = Invalid_argument string

type_synonym fields = "(string \<times> string) list"

definition header_line :: "string \<times> string \<Rightarrow> string" where
  "header_line f = fst f @ '': '' @ snd f @ crlf"

fun connection_string :: "connection_header \<Rightarrow> http_error + string" where
  "connection_string Keep_alive = Inr ''keep-alive''"
| "connection_string Close = Inr ''close''"
| "connection_string Upgrade = Inl (Invalid_argument ''upgrade'')"

definition request_line :: "http_header \<Rightarrow> string" where
  "request_line h =
     method_name h @ '' '' @ request_target h @ '' '' @
     ''HTTP/'' @ dec_of_nat (http_major h) @ ''.'' @ dec_of_nat (http_minor h) @ crlf"

definition create_http_request ::
  "http_header \<Rightarrow> fields \<Rightarrow> connection_header \<Rightarrow> string \<Rightarrow> http_error + string" where
  "create_http_request h fs conn body =
     (case connection_string conn of
        Inl e \<Rightarrow> Inl e
      | Inr conn_str \<Rightarrow>
          Inr (request_line h @ concat (map header_line fs) @
               ''Connection: '' @ conn_str @ crlf @
               (if body \<noteq> []
                then ''Content-Length: '' @ dec_of_nat (length body) @ crlf @ crlf @ body
                else []) @
               crlf))"

subsection \<open>A reference reader of HTTP/1.1 messages\<close>

text \<open>
  A message is a request line, header lines and an empty line, each ended by CR LF; a header
  line is a name, a colon, a space and a value. What follows the empty line is returned as the
  rest; the body is as long as the \<^verbatim>\<open>Content-Length\<close> field says.
\<close>

fun next_line :: "string \<Rightarrow> (string \<times> string) option" where
  "next_line [] = None"
| "next_line (c # s) =
     (if c = CR \<and> take 1 s = [LF] then Some ([], tl s)
      else map_option (\<lambda>(l, r). (c # l, r)) (next_line s))"

fun split_at :: "char \<Rightarrow> string \<Rightarrow> (string \<times> string) option" where
  "split_at d [] = None"
| "split_at d (c # s) =
     (if c = d then Some ([], s) else map_option (\<lambda>(l, r). (c # l, r)) (split_at d s))"

lemma next_line_shorter: "next_line s = Some (l, r) \<Longrightarrow> length r < length s"
  by (induction s arbitrary: l r) (auto split: if_splits)

definition read_field :: "string \<Rightarrow> (string \<times> string) option" where
  "read_field l =
     (case split_at (CHR '':'') l of
        Some (n, CHR '' '' # v) \<Rightarrow> Some (n, v)
      | _ \<Rightarrow> None)"

function read_fields :: "string \<Rightarrow> (fields \<times> string) option" where
  "read_fields s =
     (case next_line s of
        None \<Rightarrow> None
      | Some (l, r) \<Rightarrow>
          if l = [] then Some ([], r)
          else (case read_field l of
              None \<Rightarrow> None
            | Some f \<Rightarrow> map_option (\<lambda>(fs, rest). (f # fs, rest)) (read_fields r)))"
  by pat_completeness auto
termination
  by (relation "measure length") (auto dest: next_line_shorter)

declare read_fields.simps [simp del]

record message =
  msg_method :: string
  msg_target :: string
  msg_version :: string
  msg_fields :: fields
  msg_body :: string
  msg_rest :: string

definition body_length :: "fields \<Rightarrow> nat" where
  "body_length fs =
     (case map_of fs ''Content-Length'' of None \<Rightarrow> 0 | Some v \<Rightarrow> nat_of_dec v)"

definition read_message :: "string \<Rightarrow> message option" where
  "read_message s =
     (case next_line s of None \<Rightarrow> None
      | Some (l, r) \<Rightarrow>
     (case split_at (CHR '' '') l of None \<Rightarrow> None
      | Some (m, l') \<Rightarrow>
     (case split_at (CHR '' '') l' of None \<Rightarrow> None
      | Some (t, v) \<Rightarrow>
     (case read_fields r of None \<Rightarrow> None
      | Some (fs, rest) \<Rightarrow>
          let n = body_length fs in
          if length rest < n then None
          else Some \<lparr>msg_method = m, msg_target = t, msg_version = v, msg_fields = fs,
                     msg_body = take n rest, msg_rest = drop n rest\<rparr>))))"

subsection \<open>Laws of the reader\<close>

lemma next_line_line: "CR \<notin> set l \<Longrightarrow> next_line (l @ CR # LF # r) = Some (l, r)"
  by (induction l) auto

lemma split_at_first: "d \<notin> set l \<Longrightarrow> split_at d (l @ d # r) = Some (l, r)"
  by (induction l) auto

lemma read_fields_end: "read_fields (CR # LF # r) = Some ([], r)"
  by (simp add: read_fields.simps)

definition clean_field :: "string \<times> string \<Rightarrow> bool" where
  "clean_field f \<longleftrightarrow> CR \<notin> set (fst f) \<and> CHR '':'' \<notin> set (fst f) \<and> CR \<notin> set (snd f)"

lemma read_field_line: "clean_field (n, v) \<Longrightarrow> read_field (n @ '': '' @ v) = Some (n, v)"
  using split_at_first [of "CHR '':''" n "CHR '' '' # v"]
  by (simp add: read_field_def clean_field_def)

lemma read_fields_line:
  assumes "clean_field (n, v)"
  shows "read_fields (header_line (n, v) @ s) =
    map_option (\<lambda>(fs, rest). ((n, v) # fs, rest)) (read_fields s)"
proof -
  have "CR \<notin> set (n @ '': '' @ v)" using assms by (simp add: clean_field_def)
  from next_line_line [OF this, of s]
  have "next_line (header_line (n, v) @ s) = Some (n @ '': '' @ v, s)"
    by (simp add: header_line_def)
  then show ?thesis
    using read_field_line [OF assms] by (simp add: read_fields.simps [of "header_line (n, v) @ s"])
qed

lemma read_fields_lines:
  "list_all clean_field fs \<Longrightarrow>
     read_fields (concat (map header_line fs) @ s) =
       map_option (\<lambda>(gs, rest). (fs @ gs, rest)) (read_fields s)"
proof (induction fs)
  case Nil
  then show ?case by (cases "read_fields s") auto
next
  case (Cons f fs)
  obtain n v where f: "f = (n, v)" by (cases f)
  then have "clean_field (n, v)" using Cons.prems by simp
  from read_fields_line [OF this, of "concat (map header_line fs) @ s"]
  show ?case using Cons by (cases "read_fields s") (auto simp: f)
qed


subsection \<open>What a server reads\<close>

definition clean_header :: "http_header \<Rightarrow> bool" where
  "clean_header h \<longleftrightarrow>
     CR \<notin> set (method_name h) \<and> CHR '' '' \<notin> set (method_name h) \<and>
     CR \<notin> set (request_target h) \<and> CHR '' '' \<notin> set (request_target h)"

definition version_string :: "http_header \<Rightarrow> string" where
  "version_string h = ''HTTP/'' @ dec_of_nat (http_major h) @ ''.'' @ dec_of_nat (http_minor h)"

definition sent_fields :: "fields \<Rightarrow> string \<Rightarrow> string \<Rightarrow> fields" where
  "sent_fields fs cs body =
     fs @ (''Connection'', cs) #
     (if body \<noteq> [] then [(''Content-Length'', dec_of_nat (length body))] else [])"

lemma dec_no_char: "\<not> is_digit c \<Longrightarrow> c \<notin> set (dec_of_nat n)"
  using dec_of_nat_digits by blast

lemma not_digits [simp]:
  "\<not> is_digit CR" "\<not> is_digit (CHR '' '')" "\<not> is_digit (CHR '':'')" "\<not> is_digit (CHR ''%'')"
  by (simp_all add: is_digit_def)

lemma read_request_line:
  assumes "clean_header h"
  shows "next_line (request_line h @ s) =
      Some (method_name h @ CHR '' '' # request_target h @ CHR '' '' # version_string h, s)"
    and "split_at (CHR '' '') (method_name h @ CHR '' '' # request_target h @ CHR '' '' # version_string h)
      = Some (method_name h, request_target h @ CHR '' '' # version_string h)"
    and "split_at (CHR '' '') (request_target h @ CHR '' '' # version_string h) =
      Some (request_target h, version_string h)"
proof -
  have "CR \<notin> set (method_name h @ CHR '' '' # request_target h @ CHR '' '' # version_string h)"
    using assms by (simp add: clean_header_def version_string_def dec_no_char)
  from next_line_line [OF this, of s]
  show "next_line (request_line h @ s) =
      Some (method_name h @ CHR '' '' # request_target h @ CHR '' '' # version_string h, s)"
    by (simp add: request_line_def version_string_def)
qed (use assms in \<open>simp_all add: clean_header_def split_at_first\<close>)

lemma read_sent_fields:
  assumes "list_all clean_field fs" and "CR \<notin> set cs"
  shows "read_fields (concat (map header_line fs) @ ''Connection: '' @ cs @ crlf @
      (if body \<noteq> [] then ''Content-Length: '' @ dec_of_nat (length body) @ crlf @ crlf @ body
       else []) @ crlf) =
    Some (sent_fields fs cs body, body @ (if body \<noteq> [] then crlf else []))"
proof -
  have conn: "clean_field (''Connection'', cs)"
    using assms(2) by (simp add: clean_field_def)
  have len: "clean_field (''Content-Length'', dec_of_nat (length body))"
    by (simp add: clean_field_def dec_no_char)
  show ?thesis
  proof (cases "body = []")
    case True
    then show ?thesis
      using read_fields_lines [OF assms(1), of "header_line (''Connection'', cs) @ crlf"]
        read_fields_line [OF conn, of crlf]
      by (simp add: read_fields_end sent_fields_def header_line_def)
  next
    case False
    let ?tail = "header_line (''Content-Length'', dec_of_nat (length body)) @ crlf @ body @ crlf"
    show ?thesis
      using False read_fields_lines [OF assms(1), of "header_line (''Connection'', cs) @ ?tail"]
        read_fields_line [OF conn, of ?tail] read_fields_line [OF len, of "crlf @ body @ crlf"]
      by (simp add: read_fields_end sent_fields_def header_line_def)
  qed
qed

lemma body_length_sent:
  assumes "list_all (\<lambda>f. fst f \<noteq> ''Content-Length'') fs"
  shows "body_length (sent_fields fs cs body) = length body"
proof -
  have "map_of fs ''Content-Length'' = None"
    using assms by (auto simp: map_of_eq_None_iff list_all_iff)
  then show ?thesis
    by (auto simp: body_length_def sent_fields_def map_add_def split: option.splits)
qed

lemma read_message_parts:
  assumes "clean_header h" and "read_fields t = Some (fs, rest)"
    and "body_length fs \<le> length rest"
  shows "read_message (request_line h @ t) =
    Some \<lparr>msg_method = method_name h, msg_target = request_target h,
      msg_version = version_string h, msg_fields = fs,
      msg_body = take (body_length fs) rest, msg_rest = drop (body_length fs) rest\<rparr>"
  using assms by (simp add: read_message_def read_request_line Let_def)

subsection \<open>Choosing the method and building the request of \<^verbatim>\<open>main\<close>\<close>

text \<open>
  RESTinio's tables: the text of the two standard methods, the names of the header fields, the
  version a default-constructed request header has.
\<close>

datatype http_method = Http_get | Http_post
datatype field_id = Host | User_agent | Accept

record restinio =
  method_to_string :: "http_method \<Rightarrow> string"
  field_to_string :: "field_id \<Rightarrow> string"
  default_major :: nat
  default_minor :: nat

text \<open>
  The outcome of building a request: the process ends with a status, an exception leaves
  \<^verbatim>\<open>main\<close>, a call is undefined, or the request text is there, with the port. What \<^verbatim>\<open>main\<close> does with it, beginning with
  printing it, is in theory Rest\_Client.
\<close>

datatype main_result = Exits int | Throws http_error | Undefined_behaviour | Request_built string u16

text \<open>\<^verbatim>\<open>argv[argc]\<close> is a null pointer, so the body is empty with exactly five arguments.\<close>

definition body_arg :: "string list \<Rightarrow> string" where
  "body_arg argv = (if length argv > 5 then argv ! 5 else [])"

definition main_fields :: "restinio \<Rightarrow> string \<Rightarrow> u16 \<Rightarrow> fields" where
  "main_fields lib addr port =
     [(field_to_string lib Host, c_str (addr @ '':'' @ dec_of_nat (unat port))),
      (field_to_string lib User_agent, ''RESTinio client''),
      (field_to_string lib Accept, ''*/*'')]"

definition main_header :: "restinio \<Rightarrow> string \<Rightarrow> string \<Rightarrow> http_header" where
  "main_header lib m target =
     \<lparr>method_name = m, request_target = target,
      http_major = default_major lib, http_minor = default_minor lib\<rparr>"

definition built_request :: "restinio \<Rightarrow> string \<Rightarrow> string list \<Rightarrow> u16 \<Rightarrow> main_result" where
  "built_request lib m argv port =
     (case create_http_request (main_header lib m (argv ! 4))
             (main_fields lib (argv ! 2) port) Keep_alive (body_arg argv) of
        Inl e \<Rightarrow> Throws e
      | Inr s \<Rightarrow> Request_built s port)"

definition select_method :: "string \<Rightarrow> http_error + http_method" where
  "select_method m =
     (if m = ''get'' then Inr Http_get
      else if m = ''post'' then Inr Http_post
      else Inl (Invalid_argument m))"

definition client_request :: "restinio \<Rightarrow> string list \<Rightarrow> main_result" where
  "client_request lib argv =
     (if length argv < 5 then Exits 1
      else case atoi (argv ! 3) of
          None \<Rightarrow> Undefined_behaviour
        | Some v \<Rightarrow>
            (case select_method (argv ! 1) of
               Inl e \<Rightarrow> Throws e
             | Inr m \<Rightarrow> built_request lib (method_to_string lib m) argv (to_u16 v)))"

subsection \<open>Custom methods (client\_custom\_http\_methods.cpp)\<close>

text \<open>
  A method is its number in the HTTP parser and its name. The numbers of the four added
  methods come from the patched parser, and \<open>default_from\<close> is RESTinio's own table.
\<close>

type_synonym method_id = "int \<times> string"

record method_ids =
  http_listen :: int
  http_stats :: int
  http_sign :: int
  http_encrypt :: int

definition method_listen :: "method_ids \<Rightarrow> method_id" where
  "method_listen ids = (http_listen ids, ''LISTEN'')"

definition method_stats :: "method_ids \<Rightarrow> method_id" where
  "method_stats ids = (http_stats ids, ''STATS'')"

definition method_sign :: "method_ids \<Rightarrow> method_id" where
  "method_sign ids = (http_sign ids, ''SIGN'')"

definition method_encrypt :: "method_ids \<Rightarrow> method_id" where
  "method_encrypt ids = (http_encrypt ids, ''ENCRYPT'')"

definition from_nodejs :: "method_ids \<Rightarrow> (int \<Rightarrow> method_id) \<Rightarrow> int \<Rightarrow> method_id" where
  "from_nodejs ids default_from m =
     (if m = fst (method_listen ids) then method_listen ids
      else if m = fst (method_stats ids) then method_stats ids
      else if m = fst (method_sign ids) then method_sign ids
      else if m = fst (method_encrypt ids) then method_encrypt ids
      else default_from m)"

definition select_custom_method ::
  "method_ids \<Rightarrow> (int \<Rightarrow> method_id) \<Rightarrow> method_id \<Rightarrow> method_id \<Rightarrow> string \<Rightarrow> http_error + method_id"
  where
  "select_custom_method ids default_from method_get method_post m =
     (if m = ''get'' then Inr method_get
      else if m = ''post'' then Inr method_post
      else if m = ''listen'' then Inr (from_nodejs ids default_from (fst (method_listen ids)))
      else Inl (Invalid_argument m))"

definition custom_request ::
  "restinio \<Rightarrow> method_ids \<Rightarrow> (int \<Rightarrow> method_id) \<Rightarrow> method_id \<Rightarrow> method_id \<Rightarrow> string list \<Rightarrow> main_result"
  where
  "custom_request lib ids default_from method_get method_post argv =
     (if length argv < 5 then Exits 1
      else case atoi (argv ! 3) of
          None \<Rightarrow> Undefined_behaviour
        | Some v \<Rightarrow>
            (case select_custom_method ids default_from method_get method_post (argv ! 1) of
               Inl e \<Rightarrow> Throws e
             | Inr m \<Rightarrow> built_request lib (snd m) argv (to_u16 v)))"

subsection \<open>Reading the response\<close>

text \<open>
  \<^verbatim>\<open>do_request\<close> of both programs after the request was written. \<^verbatim>\<open>read_until\<close> leaves in the stream
  buffer what it has received up to and beyond the end of the header (\<open>None\<close>: it throws). Each
  \<^verbatim>\<open>read\<close> with \<^verbatim>\<open>transfer_at_least(1)\<close> appends bytes to the buffer or, at the end, appends none
  and sets the error code; the list holds its answers in order. When the list runs out, the
  call has not returned: \<open>Blocked\<close>. \<open>execute\<close> is \<^verbatim>\<open>http_parser_execute\<close> and
  \<open>parser_failed\<close> tests the parser's error number; a parse error is printed (and counted here) and the loop goes on.
\<close>

datatype 'a read_result = Done 'a | Read_error error_code | Throws_until | Blocked | Undefined_print

definition feed :: "('p \<Rightarrow> string \<Rightarrow> 'p) \<Rightarrow> ('p \<Rightarrow> bool) \<Rightarrow> 'p \<times> nat \<Rightarrow> string \<Rightarrow> 'p \<times> nat" where
  "feed execute parser_failed pr s =
     (let p = execute (fst pr) s in
      (p, if parser_failed p then Suc (snd pr) else snd pr))"

fun parse_loop ::
  "('p \<Rightarrow> string \<Rightarrow> 'p) \<Rightarrow> ('p \<Rightarrow> bool) \<Rightarrow> 'p \<times> nat \<Rightarrow> string \<Rightarrow> (string \<times> error_code) list \<Rightarrow>
     ('p \<times> nat) read_result" where
  "parse_loop execute parser_failed pr buf [] = Blocked"
| "parse_loop execute parser_failed pr buf ((d, ec) # answers) =
     (if d \<noteq> [] then
        parse_loop execute parser_failed (feed execute parser_failed pr (buf @ d)) [] answers
      else if ec \<noteq> Eof then Read_error ec
      else Done pr)"

definition do_request ::
  "('p \<Rightarrow> string \<Rightarrow> 'p) \<Rightarrow> ('p \<Rightarrow> bool) \<Rightarrow> 'p \<Rightarrow> string option \<Rightarrow> (string \<times> error_code) list \<Rightarrow>
     ('p \<times> nat) read_result" where
  "do_request execute parser_failed p until answers =
     (case until of None \<Rightarrow> Throws_until
      | Some buf \<Rightarrow> parse_loop execute parser_failed (p, 0) buf answers)"

text \<open>
  The other client collects the text instead of parsing it, and prints what it has so far in every round,
  with \<^verbatim>\<open>printf("== %s", sout.str())\<close>: the argument is a \<^verbatim>\<open>std::string\<close> object.
\<close>

definition debug_call :: "string \<times> arg list" where
  "debug_call = (''== %s'', [Object_arg])"

fun collect_loop :: "string \<Rightarrow> string \<Rightarrow> (string \<times> error_code) list \<Rightarrow> string read_result" where
  "collect_loop sout buf [] = Blocked"
| "collect_loop sout buf ((d, ec) # answers) =
     (if d \<noteq> [] then
        (case printf (fst debug_call) (snd debug_call) of
           None \<Rightarrow> Undefined_print
         | Some shown \<Rightarrow> collect_loop (sout @ buf @ d) [] answers)
      else if ec \<noteq> Eof then Read_error ec
      else Done sout)"

definition do_request_custom ::
  "string option \<Rightarrow> (string \<times> error_code) list \<Rightarrow> string read_result" where
  "do_request_custom until answers =
     (case until of None \<Rightarrow> Throws_until | Some buf \<Rightarrow> collect_loop [] buf answers)"

text \<open>What a connection delivers after \<^verbatim>\<open>read_until\<close>: non-empty pieces, then the end.\<close>

definition deliver :: "string list \<Rightarrow> error_code \<Rightarrow> (string \<times> error_code) list" where
  "deliver ds ec = map (\<lambda>d. (d, Success)) ds @ [([], ec)]"

definition segments :: "string \<Rightarrow> string list \<Rightarrow> string list" where
  "segments buf ds = (case ds of [] \<Rightarrow> [] | d # ds' \<Rightarrow> (buf @ d) # ds')"

lemma parse_loop_empty_buffer:
  "list_all (\<lambda>d. d \<noteq> []) ds \<Longrightarrow>
     parse_loop execute parser_failed pr [] (deliver ds Eof) =
       Done (foldl (feed execute parser_failed) pr ds)"
  by (induction ds arbitrary: pr) (simp_all add: deliver_def)

lemma parse_loop_segments:
  "list_all (\<lambda>d. d \<noteq> []) ds \<Longrightarrow>
     parse_loop execute parser_failed pr buf (deliver ds Eof) =
       Done (foldl (feed execute parser_failed) pr (segments buf ds))"
  using parse_loop_empty_buffer [of "tl ds" execute parser_failed]
  by (cases ds) (simp_all add: deliver_def segments_def)

lemma debug_call_undefined: "printf (fst debug_call) (snd debug_call) = None"
  by (simp add: debug_call_def printf_def)

lemma collect_loop_pieces:
  "list_all (\<lambda>d. d \<noteq> []) ds \<Longrightarrow>
     collect_loop sout buf (deliver ds Eof) = (if ds = [] then Done sout else Undefined_print)"
  by (cases ds) (simp_all add: deliver_def debug_call_undefined)

lemma fst_foldl_feed: "fst (foldl (feed execute parser_failed) pr ss) = foldl execute (fst pr) ss"
  by (induction ss arbitrary: pr) (simp_all add: feed_def Let_def)

lemma create_http_request_reads:
  assumes "clean_header h" and "list_all clean_field fs"
    and "list_all (\<lambda>f. fst f \<noteq> ''Content-Length'') fs"
    and "connection_string conn = Inr cs"
  shows "\<exists>s. create_http_request h fs conn body = Inr s \<and>
    read_message s = Some \<lparr>msg_method = method_name h, msg_target = request_target h,
      msg_version = version_string h, msg_fields = sent_fields fs cs body,
      msg_body = body, msg_rest = (if body = [] then [] else crlf)\<rparr>"
proof -
  have "CR \<notin> set cs" using assms(4) by (cases conn) auto
  note fields = read_sent_fields [OF assms(2) this, of body]
  have "body_length (sent_fields fs cs body) \<le> length (body @ (if body \<noteq> [] then crlf else []))"
    by (simp add: body_length_sent [OF assms(3)])
  note message = read_message_parts [OF assms(1) fields this]
  have "create_http_request h fs conn body =
      Inr (request_line h @ concat (map header_line fs) @ ''Connection: '' @ cs @ crlf @
        (if body \<noteq> [] then ''Content-Length: '' @ dec_of_nat (length body) @ crlf @ crlf @ body
         else []) @ crlf)"
    by (simp only: create_http_request_def assms(4) sum.case)
  then show ?thesis
    by (intro exI conjI, assumption, subst message)
      (simp add: body_length_sent [OF assms(3)])
qed

lemma client_request_message:
  assumes "select_method m = Inr meth" and "n < 65536"
    and "clean_header (main_header lib (method_to_string lib meth) target)"
    and "list_all clean_field (main_fields lib addr (of_nat n))"
    and "list_all (\<lambda>f. fst f \<noteq> ''Content-Length'') (main_fields lib addr (of_nat n))"
  shows "\<exists>s msg. client_request lib [prog, m, addr, dec_of_nat n, target, body] = Request_built s (of_nat n) \<and>
    read_message s = Some msg \<and> msg_method msg = method_to_string lib meth \<and> msg_target msg = target \<and>
    msg_body msg = body \<and>
    msg_fields msg = sent_fields (main_fields lib addr (of_nat n)) ''keep-alive'' body"
proof -
  have "connection_string Keep_alive = Inr ''keep-alive''" by simp
  from create_http_request_reads [OF assms(3-5) this, of body] obtain s where
    s: "create_http_request (main_header lib (method_to_string lib meth) target)
          (main_fields lib addr (of_nat n)) Keep_alive body = Inr s"
      "read_message s = Some \<lparr>msg_method = method_to_string lib meth, msg_target = target,
        msg_version = version_string (main_header lib (method_to_string lib meth) target),
        msg_fields = sent_fields (main_fields lib addr (of_nat n)) ''keep-alive'' body,
        msg_body = body, msg_rest = (if body = [] then [] else crlf)\<rparr>"
    by (auto simp: main_header_def)
  have "to_u16 (int n) = of_nat n" by (simp add: to_u16_def)
  then show ?thesis
    using assms(1,2) s by (simp add: client_request_def built_request_def atoi_dec body_arg_def)
qed

section \<open>Properties of the request text\<close>

text \<open>
  C5. Round trip of \<^verbatim>\<open>create_http_request\<close>: for a header and fields free of the separator
  characters, a server that reads the text gets back the method, the target, the version, the
  fields followed by \<^verbatim>\<open>Connection\<close> and, for a non-empty body, \<^verbatim>\<open>Content-Length\<close>, and exactly the
  body, whatever bytes it holds. A request with a body is followed by a stray CR LF that is
  not part of the message.
\<close>

theorem create_http_request_roundtrip:
  assumes "clean_header h" and "list_all clean_field fs"
    and "list_all (\<lambda>f. fst f \<noteq> ''Content-Length'') fs"
    and "connection_string conn = Inr cs"
  shows "\<exists>s. create_http_request h fs conn body = Inr s \<and>
    read_message s = Some \<lparr>msg_method = method_name h, msg_target = request_target h,
      msg_version = version_string h, msg_fields = sent_fields fs cs body,
      msg_body = body, msg_rest = (if body = [] then [] else crlf)\<rparr>"
  using assms by (rule create_http_request_reads)

theorem create_http_request_roundtrip_witness:
  "\<exists>s. create_http_request \<lparr>method_name = ''POST'', request_target = ''/key'', http_major = 1,
        http_minor = 1\<rparr> [(''Host'', ''127.0.0.1:8080'')] Keep_alive ''a b'' = Inr s \<and>
     map_option msg_body (read_message s) = Some ''a b'' \<and>
     map_option msg_rest (read_message s) = Some crlf"
proof -
  let ?h = "\<lparr>method_name = ''POST'', request_target = ''/key'', http_major = 1, http_minor = 1\<rparr>"
  have "clean_header ?h" "list_all clean_field [(''Host'', ''127.0.0.1:8080'')]"
    "list_all (\<lambda>f. fst f \<noteq> ''Content-Length'') [(''Host'', ''127.0.0.1:8080'')]"
    "connection_string Keep_alive = Inr ''keep-alive''"
    by (simp_all add: clean_header_def clean_field_def)
  from create_http_request_roundtrip [OF this, of "''a b''"] show ?thesis by auto
qed


text \<open>
  C6. The part of the response that arrives together with its header is handed on only if more
  data follows: when the connection delivers further pieces before it ends, the parser of \<^verbatim>\<open>client.cpp\<close>
  gets everything in order; when the whole response came with the header, the loop body never runs and the parser gets
  nothing at all. The loop of the other client has no defined round: it ends, with the empty string, only in
  that second case.
\<close>

theorem do_request_delivers:
  assumes "list_all (\<lambda>d. d \<noteq> []) ds"
  shows "(\<exists>n. do_request execute parser_failed p (Some buf) (deliver ds Eof) =
        Done (if ds = [] then p else foldl execute (execute p (buf @ hd ds)) (tl ds), n)) \<and>
    do_request_custom (Some buf) (deliver ds Eof) = (if ds = [] then Done [] else Undefined_print)"
proof -
  let ?q = "foldl (feed execute parser_failed) (p, 0) (segments buf ds)"
  have "do_request execute parser_failed p (Some buf) (deliver ds Eof) = Done (fst ?q, snd ?q)"
    by (simp add: do_request_def parse_loop_segments [OF assms])
  moreover have "fst ?q = (if ds = [] then p else foldl execute (execute p (buf @ hd ds)) (tl ds))"
    by (cases ds) (simp_all add: fst_foldl_feed segments_def feed_def Let_def)
  ultimately show ?thesis
    by (auto simp: do_request_custom_def collect_loop_pieces [OF assms])
qed

theorem do_request_delivers_witness:
  "(\<exists>n. do_request (@) (\<lambda>p. False) [] (Some ''header'') (deliver [''bo'', ''dy''] Eof) = Done (''headerbody'', n)) \<and>
   do_request_custom (Some ''header'') (deliver [''bo'', ''dy''] Eof) = Undefined_print"
  using do_request_delivers [of "[''bo'', ''dy'']" "(@)" "\<lambda>p. False" "[]" "''header''"] by simp

text \<open>
  \<^verbatim>\<open>main\<close> of \<^verbatim>\<open>client.cpp\<close> builds the request the command line asks for: with the method \<^verbatim>\<open>get\<close> or
  \<^verbatim>\<open>post\<close>, a port below 65536 and an address and target free of separators, a server that reads
  the request gets the method, the target, the body and a \<^verbatim>\<open>Host\<close> field made of address and port.
\<close>

theorem client_request_reads:
  assumes "select_method m = Inr meth" and "n < 65536"
    and "clean_header (main_header lib (method_to_string lib meth) target)"
    and "list_all clean_field (main_fields lib addr (of_nat n))"
    and "list_all (\<lambda>f. fst f \<noteq> ''Content-Length'') (main_fields lib addr (of_nat n))"
    and "NUL \<notin> set addr"
  shows "\<exists>s. client_request lib [prog, m, addr, dec_of_nat n, target, body] = Request_built s (of_nat n) \<and>
    map_option msg_method (read_message s) = Some (method_to_string lib meth) \<and>
    map_option msg_target (read_message s) = Some target \<and>
    map_option msg_body (read_message s) = Some body \<and>
    map_option (hd \<circ> msg_fields) (read_message s) =
      Some (field_to_string lib Host, addr @ '':'' @ dec_of_nat n)"
proof -
  have "c_str (addr @ '':'' @ dec_of_nat n) = addr @ '':'' @ dec_of_nat n"
    using assms(6) dec_of_nat_digits digit_neq(1) by (intro c_str_id) auto
  then have "hd (sent_fields (main_fields lib addr (of_nat n)) ''keep-alive'' body) =
      (field_to_string lib Host, addr @ '':'' @ dec_of_nat n)"
    using assms(2) by (simp add: sent_fields_def main_fields_def unat_of_nat)
  with client_request_message [OF assms(1-5), of prog body] show ?thesis by auto
qed

definition plain_restinio :: restinio where
  "plain_restinio =
     \<lparr>method_to_string = (\<lambda>m. case m of Http_get \<Rightarrow> ''GET'' | Http_post \<Rightarrow> ''POST''),
      field_to_string = (\<lambda>f. case f of Host \<Rightarrow> ''Host'' | User_agent \<Rightarrow> ''User-Agent''
                           | Accept \<Rightarrow> ''Accept''),
      default_major = 1, default_minor = 1\<rparr>"

theorem client_request_reads_witness:
  "\<exists>s. client_request plain_restinio [''client'', ''post'', ''127.0.0.1'', dec_of_nat 8080, ''/key'', ''{}'']
      = Request_built s 8080 \<and> map_option msg_body (read_message s) = Some ''{}''"
proof -
  have digits: "dec_of_nat 8080 = ''8080''"
    by (simp add: dec_of_nat.simps)
  have fields: "main_fields plain_restinio ''127.0.0.1'' (of_nat 8080) =
      [(''Host'', ''127.0.0.1:8080''), (''User-Agent'', ''RESTinio client''), (''Accept'', ''*/*'')]"
    by (simp add: main_fields_def plain_restinio_def digits)
  have "select_method ''post'' = Inr Http_post" by (simp add: select_method_def)
  moreover have "clean_header (main_header plain_restinio (method_to_string plain_restinio Http_post) ''/key'')"
    by (simp add: clean_header_def main_header_def plain_restinio_def)
  moreover have "list_all clean_field (main_fields plain_restinio ''127.0.0.1'' (of_nat 8080))"
    unfolding fields by (simp add: clean_field_def)
  moreover have "list_all (\<lambda>f. fst f \<noteq> ''Content-Length'') (main_fields plain_restinio ''127.0.0.1'' (of_nat 8080))"
    unfolding fields by simp
  ultimately show ?thesis
    using client_request_reads [of "''post''" Http_post 8080 plain_restinio "''/key''" "''127.0.0.1''"
        "''client''" "''{}''"]
    by auto
qed

text \<open>
  \<^verbatim>\<open>from_nodejs\<close> inverts the numbering of the methods: as long as the four added methods have
  different numbers, each number gives back its method, every other number goes to RESTinio's own
  table, and the result always carries the number asked for if that table does so.
\<close>

theorem from_nodejs_roundtrip:
  assumes "distinct [http_listen ids, http_stats ids, http_sign ids, http_encrypt ids]"
    and "\<And>m. fst (default_from m) = m"
  shows "(\<forall>x \<in> {method_listen ids, method_stats ids, method_sign ids, method_encrypt ids}.
      from_nodejs ids default_from (fst x) = x) \<and>
    fst (from_nodejs ids default_from m) = m \<and>
    (m \<notin> {http_listen ids, http_stats ids, http_sign ids, http_encrypt ids} \<longrightarrow>
      from_nodejs ids default_from m = default_from m)"
  using assms
  by (auto simp: from_nodejs_def method_listen_def method_stats_def method_sign_def
      method_encrypt_def)

theorem from_nodejs_roundtrip_witness:
  "from_nodejs \<lparr>http_listen = 40, http_stats = 41, http_sign = 42, http_encrypt = 43\<rparr>
     (\<lambda>m. (m, ''STD'')) 42 = (42, ''SIGN'')"
  using from_nodejs_roundtrip [of "\<lparr>http_listen = 40, http_stats = 41, http_sign = 42,
      http_encrypt = 43\<rparr>" "\<lambda>m. (m, ''STD'')" 42]
  by (auto simp: method_sign_def)

end
