(* ===== verification/Program_Run.thy ===== *)
theory Program_Run
  imports Prelude
begin

section \<open>Programs that print and may end early\<close>

text \<open>
  The command-line programs call a library, print, and end the process in the middle of a
  function (\<^verbatim>\<open>exit\<close>, a failed \<^verbatim>\<open>assert\<close>, an exception that nothing catches, undefined behaviour, a
  call that never returns). A run is what was printed and how it ended; \<open>then_run\<close> is the
  semicolon: output accumulates, and only a run that returns goes on.
\<close>

datatype 'a outcome =
  Returns 'a | Exits int | Aborts | Undefined_behaviour | Terminates | Hangs

type_synonym ('l, 'a) run = "'l list \<times> 'a outcome"

fun then_outcome :: "'a outcome \<Rightarrow> ('a \<Rightarrow> 'b outcome) \<Rightarrow> 'b outcome" where
  "then_outcome (Returns x) f = f x"
| "then_outcome (Exits n) f = Exits n"
| "then_outcome Aborts f = Aborts"
| "then_outcome Undefined_behaviour f = Undefined_behaviour"
| "then_outcome Terminates f = Terminates"
| "then_outcome Hangs f = Hangs"

definition then_run :: "('l, 'a) run \<Rightarrow> ('a \<Rightarrow> ('l, 'b) run) \<Rightarrow> ('l, 'b) run" where
  "then_run r f =
     (fst r @ (case snd r of Returns x \<Rightarrow> fst (f x) | _ \<Rightarrow> []),
      then_outcome (snd r) (\<lambda>x. snd (f x)))"

definition print_lines :: "'l list \<Rightarrow> ('l, unit) run" where
  "print_lines ls = (ls, Returns ())"

text \<open>\<^verbatim>\<open>assert((x) >= 0)\<close>.\<close>

definition check :: "int \<Rightarrow> ('l, unit) run" where
  "check r = ([], if 0 \<le> r then Returns () else Aborts)"

fun check_all :: "int list \<Rightarrow> ('l, unit) run" where
  "check_all [] = ([], Returns ())"
| "check_all (r # rs) = then_run (check r) (\<lambda>_. check_all rs)"

lemma then_run_Returns_iff:
  "snd (then_run r f) = Returns y \<longleftrightarrow> (\<exists>x. snd r = Returns x \<and> snd (f x) = Returns y)"
  by (cases "snd r") (auto simp: then_run_def)

lemma then_run_ls:
  "l \<in> set (fst (then_run r f)) \<longleftrightarrow>
     l \<in> set (fst r) \<or> (\<exists>x. snd r = Returns x \<and> l \<in> set (fst (f x)))"
  by (cases "snd r") (auto simp: then_run_def)

lemma snd_print_lines [simp]: "snd (print_lines ls) = Returns ()"
  by (simp add: print_lines_def)

lemma fst_print_lines [simp]: "fst (print_lines ls) = ls"
  by (simp add: print_lines_def)

lemma then_run_print [simp]: "then_run (print_lines ls) f = (ls @ fst (f ()), snd (f ()))"
  by (simp add: then_run_def print_lines_def)

lemma check_Returns_iff [simp]: "snd (check r) = Returns x \<longleftrightarrow> 0 \<le> r"
  by (simp add: check_def)

lemma fst_check [simp]: "fst (check r) = []"
  by (simp add: check_def)

lemma check_all_Returns_iff [simp]:
  "snd (check_all rs) = Returns x \<longleftrightarrow> list_all (\<lambda>r. 0 \<le> r) rs"
  by (induction rs) (auto simp: then_run_Returns_iff)

lemma fst_check_all [simp]: "fst (check_all rs) = []"
  by (induction rs) (auto simp: then_run_def split: outcome.splits)

end
