(* ===== verification/Rest_Client.thy ===== *)
theory Rest_Client
  imports Http_Request Program_Run Printf
begin

section \<open>The RESTinio clients as programs (cpp/restinio/client.cpp, client\_custom\_http\_methods.cpp)\<close>

text \<open>
  The set-up of the socket, the callbacks of the HTTP parser, and both \<^verbatim>\<open>main\<close> functions put together from the
  parts of theory Http\_Request. What the resolver, the socket and the parser answer is the
  record \<open>net_env\<close>; an exception that leaves a function is not caught by any caller, so it ends
  the process (\<open>Terminates\<close>).
\<close>

datatype net_line =
    Usage
  | Address string bool
  | Resolve bool string string
  | Connect
  | Request_printed string
  | Sent string
  | Text string
  | Collected string
  | Closed
  | Finishing

record 'ep net_env =
  from_string :: "string \<Rightarrow> (bool \<times> string) option"
  resolve :: "bool \<Rightarrow> string \<Rightarrow> string \<Rightarrow> 'ep list option"
  connects :: "'ep list \<Rightarrow> bool"
  write_ok :: "string \<Rightarrow> bool"
  until_answer :: "string option"
  read_answers :: "(string \<times> error_code) list"

subsection \<open>do\_with\_socket\<close>

text \<open>
  \<open>from_string\<close> says of an address whether it is an IPv4 address and how it is printed; it throws
  for text that is no address. The lambda runs between connecting and closing.
\<close>

definition with_connection ::
  "'ep net_env \<Rightarrow> bool \<Rightarrow> string \<Rightarrow> u16 \<Rightarrow> (net_line, 'a) run \<Rightarrow> (net_line, unit) run" where
  "with_connection E v4 host port lambda =
     then_run (print_lines [Resolve v4 host (dec_of_nat (unat port))]) (\<lambda>_.
       case resolve E v4 host (dec_of_nat (unat port)) of
         None \<Rightarrow> ([], Terminates)
       | Some eps \<Rightarrow>
           if \<not> connects E eps then ([], Terminates)
           else then_run (print_lines [Connect]) (\<lambda>_.
                then_run lambda (\<lambda>_. print_lines [Closed])))"

definition do_with_socket ::
  "'ep net_env \<Rightarrow> string \<Rightarrow> u16 \<Rightarrow> (net_line, 'a) run \<Rightarrow> (net_line, unit) run" where
  "do_with_socket E ip port lambda =
     (case from_string E ip of
        None \<Rightarrow> ([], Terminates)
      | Some (v4, host) \<Rightarrow>
          then_run (print_lines [Address host v4]) (\<lambda>_. with_connection E v4 host port lambda))"

text \<open>The other client asks for IPv4 whatever the address looks like, and lets the resolver read it.\<close>

definition do_with_socket_custom ::
  "'ep net_env \<Rightarrow> string \<Rightarrow> u16 \<Rightarrow> (net_line, 'a) run \<Rightarrow> (net_line, unit) run" where
  "do_with_socket_custom E addr port lambda = with_connection E True addr port lambda"

subsection \<open>The callbacks of the parser\<close>

datatype parser_event =
    On_url string
  | On_status nat string
  | On_header_field string
  | On_header_value string
  | On_headers_complete
  | On_body string
  | On_message_complete

text \<open>
  What each callback prints; \<open>flag\<close> is the field of the context object behind \<^verbatim>\<open>parser->data\<close>.
  Text is printed with \<^verbatim>\<open>%s\<close>, so up to its first NUL. All of them return 0: go on.
\<close>

fun callback_output :: "int \<Rightarrow> parser_event \<Rightarrow> string" where
  "callback_output flag (On_url s) = ''on url cb'' @ [LF]"
| "callback_output flag (On_header_field s) = ''on header field cb'' @ [LF]"
| "callback_output flag (On_header_value s) = ''on header value cb'' @ [LF]"
| "callback_output flag On_headers_complete = ''on headers complete cb'' @ [LF]"
| "callback_output flag (On_body s) =
     ''on body cb  message={'' @ c_str s @ ''} flag='' @ dec_of_int flag @ [LF]"
| "callback_output flag On_message_complete = ''on message complete cb'' @ [LF]"
| "callback_output flag (On_status code s) =
     ''on status cb code='' @ dec_of_nat code @ '' message='' @ c_str s @ [LF]"

text \<open>The calls of \<^verbatim>\<open>printf\<close> in the callbacks: each a format and its arguments.\<close>

fun callback_calls :: "int \<Rightarrow> parser_event \<Rightarrow> (string \<times> arg list) list" where
  "callback_calls flag (On_url s) = [(''on url cb'' @ [LF], [])]"
| "callback_calls flag (On_header_field s) = [(''on header field cb'' @ [LF], [])]"
| "callback_calls flag (On_header_value s) = [(''on header value cb'' @ [LF], [])]"
| "callback_calls flag On_headers_complete = [(''on headers complete cb'' @ [LF], [])]"
| "callback_calls flag (On_body s) =
     [(''on body cb  message={%s} '', [Str_arg s]), (''flag=%i'' @ [LF], [Int_arg flag])]"
| "callback_calls flag On_message_complete = [(''on message complete cb'' @ [LF], [])]"
| "callback_calls flag (On_status code s) =
     [(''on status cb code=%i message=%s'' @ [LF], [Int_arg (int code), Str_arg s])]"

lemma callback_calls_print:
  "concat (map (\<lambda>(f, args). the (printf f args)) (callback_calls flag ev)) = callback_output flag ev \<and>
     list_all (\<lambda>(f, args). printf f args \<noteq> None) (callback_calls flag ev)"
  by (cases ev) (simp_all add: printf_def dec_of_int_def)

text \<open>
  \<^verbatim>\<open>http_parser_execute\<close> with these callbacks: the library reads a piece of text, moves to a new
  state and calls back for what it found (\<open>library\<close>); the state carries what was printed.
\<close>

definition execute_with ::
  "('p \<Rightarrow> string \<Rightarrow> 'p \<times> parser_event list) \<Rightarrow> int \<Rightarrow> 'p \<times> string \<Rightarrow> string \<Rightarrow> 'p \<times> string" where
  "execute_with library flag ps s =
     (case library (fst ps) s of
        (p, evs) \<Rightarrow> (p, snd ps @ concat (map (callback_output flag) evs)))"

subsection \<open>do\_request\<close>

definition run_of_read :: "'a read_result \<Rightarrow> ('a \<Rightarrow> net_line list) \<Rightarrow> (net_line, 'a) run" where
  "run_of_read r show_it =
     (case r of
        Done x \<Rightarrow> (show_it x, Returns x)
      | Read_error ec \<Rightarrow> ([], Terminates)
      | Throws_until \<Rightarrow> ([], Terminates)
      | Blocked \<Rightarrow> ([], Hangs)
      | Undefined_print \<Rightarrow> ([], outcome.Undefined_behaviour))"

definition send_request :: "'ep net_env \<Rightarrow> string \<Rightarrow> (net_line, 'a) run \<Rightarrow> (net_line, 'a) run" where
  "send_request E request lambda =
     (if \<not> write_ok E request then ([], Terminates)
      else then_run (print_lines [Sent request]) (\<lambda>_. lambda))"

definition do_request_run ::
  "'ep net_env \<Rightarrow> ('p \<Rightarrow> string \<Rightarrow> 'p \<times> parser_event list) \<Rightarrow> ('p \<Rightarrow> bool) \<Rightarrow> int \<Rightarrow> 'p \<Rightarrow>
     string \<Rightarrow> string \<Rightarrow> u16 \<Rightarrow> (net_line, unit) run" where
  "do_request_run E library parser_failed flag p request addr port =
     do_with_socket E addr port (send_request E request
       (run_of_read
         (do_request (execute_with library flag) (parser_failed \<circ> fst) (p, []) (until_answer E)
           (read_answers E))
         (\<lambda>((p, shown), errs). [Text shown])))"

definition do_request_custom_run ::
  "'ep net_env \<Rightarrow> string \<Rightarrow> string \<Rightarrow> u16 \<Rightarrow> (net_line, unit) run" where
  "do_request_custom_run E request addr port =
     do_with_socket_custom E addr port (send_request E request
       (run_of_read (do_request_custom (until_answer E) (read_answers E)) (\<lambda>s. [Collected s])))"

subsection \<open>main\<close>

text \<open>\<^verbatim>\<open>printf(request.c_str())\<close>: the request is the format, without arguments; only \<^verbatim>\<open>%%\<close> is defined.\<close>

definition print_request :: "string \<Rightarrow> (net_line, unit) run" where
  "print_request request =
     (case printf request [] of
        None \<Rightarrow> ([], outcome.Undefined_behaviour)
      | Some t \<Rightarrow> print_lines [Request_printed t])"

definition start_of_main :: "main_result \<Rightarrow> (string \<Rightarrow> u16 \<Rightarrow> (net_line, int) run) \<Rightarrow> (net_line, int) run"
  where
  "start_of_main r go =
     (case r of
        main_result.Exits n \<Rightarrow> ([Usage], Returns n)
      | Throws e \<Rightarrow> ([], Terminates)
      | main_result.Undefined_behaviour \<Rightarrow> ([], outcome.Undefined_behaviour)
      | Request_built request port \<Rightarrow> then_run (print_request request) (\<lambda>_. go request port))"

text \<open>
  The second half of \<^verbatim>\<open>main\<close> of \<open>client.cpp\<close> for the value of the variable \<^verbatim>\<open>parser\<close>:
  \<open>Some p\<close> a parser object, as \<^verbatim>\<open>http_parser_init\<close> sets it up, or \<open>None\<close> an indeterminate pointer.
\<close>

definition with_parser ::
  "'ep net_env \<Rightarrow> ('p \<Rightarrow> string \<Rightarrow> 'p \<times> parser_event list) \<Rightarrow> ('p \<Rightarrow> bool) \<Rightarrow> 'p option \<Rightarrow>
     string \<Rightarrow> string \<Rightarrow> u16 \<Rightarrow> (net_line, int) run" where
  "with_parser E library parser_failed parser addr request port =
     (case parser of
        None \<Rightarrow> ([], outcome.Undefined_behaviour)
      | Some p \<Rightarrow>
          then_run (do_request_run E library parser_failed 666 p request addr port)
            (\<lambda>_. ([Finishing], Returns 0)))"

text \<open>\<^verbatim>\<open>http_parser *parser;\<close> is declared and not initialised.\<close>

definition client_program ::
  "'ep net_env \<Rightarrow> restinio \<Rightarrow> ('p \<Rightarrow> string \<Rightarrow> 'p \<times> parser_event list) \<Rightarrow> ('p \<Rightarrow> bool) \<Rightarrow>
     string list \<Rightarrow> (net_line, int) run" where
  "client_program E lib library parser_failed argv =
     start_of_main (client_request lib argv) (with_parser E library parser_failed None (argv ! 2))"

text \<open>
  The other client has its own copy of \<^verbatim>\<open>create_http_request\<close>, which takes the name of the method from the
  header's \<^verbatim>\<open>http_method_id_t\<close> instead of a table.
\<close>

record custom_header =
  custom_method :: method_id
  custom_target :: string
  custom_major :: nat
  custom_minor :: nat

definition create_http_request_custom ::
  "custom_header \<Rightarrow> fields \<Rightarrow> connection_header \<Rightarrow> string \<Rightarrow> http_error + string" where
  "create_http_request_custom h fs conn body =
     (let request = snd (custom_method h) @ '' '' @ custom_target h @ '' '' @
            ''HTTP/'' @ dec_of_nat (custom_major h) @ ''.'' @ dec_of_nat (custom_minor h) @ crlf @
            concat (map (\<lambda>f. fst f @ '': '' @ snd f @ crlf) fs)
      in case conn of
           Upgrade \<Rightarrow> Inl (Invalid_argument ''upgrade'')
         | _ \<Rightarrow>
             let conn_str = (if conn = Keep_alive then ''keep-alive'' else ''close'');
                 head = request @ ''Connection: '' @ conn_str @ crlf;
                 sized = (if body \<noteq> [] then head @ ''Content-Length: '' @ dec_of_nat (length body) @
                            crlf @ crlf @ body else head)
             in Inr (sized @ crlf))"

definition custom_program ::
  "'ep net_env \<Rightarrow> restinio \<Rightarrow> method_ids \<Rightarrow> (int \<Rightarrow> method_id) \<Rightarrow> method_id \<Rightarrow> method_id \<Rightarrow> string list \<Rightarrow>
     (net_line, int) run" where
  "custom_program E lib ids default_from method_get method_post argv =
     start_of_main (custom_request lib ids default_from method_get method_post argv)
       (\<lambda>request port.
          then_run (do_request_custom_run E request (argv ! 2) port) (\<lambda>_. ([], Returns 0)))"

subsection \<open>Laws\<close>

lemma with_connection_returns:
  "snd (with_connection E v4 host port lambda) = Returns () \<longleftrightarrow>
     (\<exists>eps x. resolve E v4 host (dec_of_nat (unat port)) = Some eps \<and> connects E eps \<and>
        snd lambda = Returns x)"
  by (auto simp: with_connection_def then_run_Returns_iff split: option.splits)

lemma with_connection_output:
  assumes "resolve E v4 host (dec_of_nat (unat port)) = Some eps" and "connects E eps"
  shows "fst (with_connection E v4 host port lambda) =
    [Resolve v4 host (dec_of_nat (unat port)), Connect] @ fst lambda @
      (case snd lambda of Returns x \<Rightarrow> [Closed] | _ \<Rightarrow> [])"
  using assms by (simp add: with_connection_def then_run_def print_lines_def split: outcome.splits)

lemma with_connection_fails:
  assumes "\<forall>eps. resolve E v4 host (dec_of_nat (unat port)) = Some eps \<longrightarrow> \<not> connects E eps"
  shows "with_connection E v4 host port lambda =
    ([Resolve v4 host (dec_of_nat (unat port))], Terminates)"
  using assms by (auto simp: with_connection_def then_run_def print_lines_def split: option.splits)

text \<open>Both copies of \<^verbatim>\<open>create_http_request\<close> write the same text.\<close>

lemma create_http_request_copies:
  "create_http_request_custom h fs conn body =
     create_http_request \<lparr>method_name = snd (custom_method h), request_target = custom_target h,
       http_major = custom_major h, http_minor = custom_minor h\<rparr> fs conn body"
proof -
  have "(\<lambda>f. fst f @ '': '' @ snd f @ crlf) = header_line"
    by (rule ext) (simp add: header_line_def)
  then show ?thesis
    by (cases conn) (simp_all add: create_http_request_custom_def create_http_request_def Let_def
        request_line_def del: append_Cons)
qed

text \<open>The events of the parser over a list of pieces.\<close>

fun parser_events ::
  "('p \<Rightarrow> string \<Rightarrow> 'p \<times> parser_event list) \<Rightarrow> 'p \<Rightarrow> string list \<Rightarrow> parser_event list" where
  "parser_events library p [] = []"
| "parser_events library p (s # ss) =
     (case library p s of (q, evs) \<Rightarrow> evs @ parser_events library q ss)"

lemma foldl_execute_with:
  "snd (foldl (execute_with library flag) (p, out) ss) =
     out @ concat (map (callback_output flag) (parser_events library p ss))"
  by (induction ss arbitrary: p out) (simp_all add: execute_with_def split: prod.splits)

lemma do_request_with_callbacks:
  assumes "list_all (\<lambda>d. d \<noteq> []) ds"
  shows "\<exists>q n. do_request (execute_with library flag) failing (p, []) (Some buf) (deliver ds Eof) =
    Done ((q, concat (map (callback_output flag) (parser_events library p (segments buf ds)))), n)"
proof -
  let ?r = "foldl (feed (execute_with library flag) failing) ((p, []), 0) (segments buf ds)"
  have "fst ?r = foldl (execute_with library flag) (p, []) (segments buf ds)"
    by (simp add: fst_foldl_feed)
  then have "snd (fst ?r) = concat (map (callback_output flag) (parser_events library p (segments buf ds)))"
    by (simp add: foldl_execute_with)
  moreover have "do_request (execute_with library flag) failing (p, []) (Some buf) (deliver ds Eof) =
      Done ((fst (fst ?r), snd (fst ?r)), snd ?r)"
    by (simp add: do_request_def parse_loop_segments [OF assms])
  ultimately show ?thesis by auto
qed

lemma start_of_main_cases:
  "snd (start_of_main r go) = Returns 0 \<longleftrightarrow>
     (r = main_result.Exits 0 \<or>
      (\<exists>request port. r = Request_built request port \<and> printf request [] \<noteq> None \<and>
         snd (go request port) = Returns 0))"
  by (cases r) (auto simp: start_of_main_def print_request_def then_run_Returns_iff split: option.splits)

lemma print_request_cases:
  "snd (print_request s) = outcome.Undefined_behaviour \<or> snd (print_request s) = Returns ()"
  by (simp add: print_request_def split: option.splits)

lemma built_request_built: "\<exists>s. built_request lib m argv port = Request_built s port"
  by (simp add: built_request_def create_http_request_def)

text \<open>The lambda of \<^verbatim>\<open>do_request\<close>, and how far it and the connection around it get.\<close>

definition request_lambda ::
  "'ep net_env \<Rightarrow> ('p \<Rightarrow> string \<Rightarrow> 'p \<times> parser_event list) \<Rightarrow> ('p \<Rightarrow> bool) \<Rightarrow> int \<Rightarrow> 'p \<Rightarrow>
     string \<Rightarrow> (net_line, ('p \<times> string) \<times> nat) run" where
  "request_lambda E library parser_failed flag p request =
     send_request E request
       (run_of_read
         (do_request (execute_with library flag) (parser_failed \<circ> fst) (p, []) (until_answer E)
           (read_answers E))
         (\<lambda>((p, shown), errs). [Text shown]))"

lemma lambda_stages:
  "\<exists>k shown. fst (request_lambda E library parser_failed flag p request) = take k [Sent request, Text shown] \<and>
     k \<le> 2 \<and> (\<exists>x. snd (request_lambda E library parser_failed flag p request) = Returns x) = (k = 2)"
proof (cases "write_ok E request")
  case False
  then show ?thesis by (intro exI [of _ 0]) (simp add: request_lambda_def send_request_def)
next
  case True
  show ?thesis
  proof (cases "do_request (execute_with library flag) (parser_failed \<circ> fst) (p, []) (until_answer E)
        (read_answers E)")
    case (Done x)
    then show ?thesis using True
      by (intro exI [of _ 2] exI [of _ "snd (fst x)"])
        (simp add: request_lambda_def send_request_def run_of_read_def split: prod.splits)
  qed (use True in \<open>intro exI [of _ 1], simp add: request_lambda_def send_request_def run_of_read_def\<close>)+
qed

lemma connection_stages:
  assumes "\<exists>k shown. fst lambda = take k [Sent request, Text shown] \<and> k \<le> 2 \<and>
    (\<exists>x. snd lambda = Returns x) = (k = 2)"
  shows "\<exists>n shown. fst (with_connection E v4 host port lambda) =
      take n [Resolve v4 host (dec_of_nat (unat port)), Connect, Sent request, Text shown, Closed] \<and>
    n \<le> 5 \<and> (snd (with_connection E v4 host port lambda) = Returns ()) = (n = 5)"
proof (cases "\<exists>eps. resolve E v4 host (dec_of_nat (unat port)) = Some eps \<and> connects E eps")
  case False
  then show ?thesis by (intro exI [of _ 1]) (simp add: with_connection_fails)
next
  case True
  then obtain eps where eps: "resolve E v4 host (dec_of_nat (unat port)) = Some eps" "connects E eps"
    by blast
  obtain k shown where k: "fst lambda = take k [Sent request, Text shown]" "k \<le> 2"
      "(\<exists>x. snd lambda = Returns x) = (k = 2)" using assms by blast
  show ?thesis
  proof (cases "k = 2")
    case True
    then obtain x where "snd lambda = Returns x" using k(3) by blast
    then show ?thesis using True k(1)
      by (intro exI [of _ 5] exI [of _ shown])
        (simp add: with_connection_output [OF eps] with_connection_returns eps)
  next
    case False
    then have no: "snd lambda \<noteq> Returns x" for x using k(3) by blast
    then have "(case snd lambda of Returns x \<Rightarrow> [Closed] | _ \<Rightarrow> []) = []"
      by (cases "snd lambda") auto
    moreover have "snd (with_connection E v4 host port lambda) \<noteq> Returns ()"
      using no by (simp add: with_connection_returns)
    moreover have "k = 0 \<or> k = 1" using False k(2) by auto
    ultimately show ?thesis using k(1)
      by (intro exI [of _ "2 + k"] exI [of _ shown]) (auto simp: with_connection_output [OF eps])
  qed
qed

text \<open>The lambda of the other client, by itself.\<close>

definition custom_lambda :: "'ep net_env \<Rightarrow> string \<Rightarrow> (net_line, string) run" where
  "custom_lambda E request =
     send_request E request
       (run_of_read (do_request_custom (until_answer E) (read_answers E)) (\<lambda>s. [Collected s]))"

lemma custom_run_lambda:
  "do_request_custom_run E request addr port = with_connection E True addr port (custom_lambda E request)"
  by (simp add: do_request_custom_run_def do_with_socket_custom_def custom_lambda_def)

lemma custom_lambda_delivers:
  assumes "until_answer E = Some buf" and "read_answers E = deliver ds Eof"
    and "list_all (\<lambda>d. d \<noteq> []) ds"
  shows "custom_lambda E request =
    (if \<not> write_ok E request then ([], Terminates)
     else if ds = [] then ([Sent request, Collected []], Returns [])
     else ([Sent request], outcome.Undefined_behaviour))"
  using collect_loop_pieces [OF assms(3), of "[]" buf]
  by (auto simp: custom_lambda_def send_request_def assms(1,2) do_request_custom_def run_of_read_def)

lemma with_connection_collected:
  "Collected s \<in> set (fst (with_connection E v4 host port lambda)) \<Longrightarrow> Collected s \<in> set (fst lambda)"
  by (auto simp: with_connection_def then_run_ls split: option.splits if_splits)

text \<open>Sending leaves the parser of \<^verbatim>\<open>client.cpp\<close> unset.\<close>

lemma send_is_undefined:
  "snd (start_of_main (built_request lib m argv port) (with_parser E library parser_failed None a)) =
     outcome.Undefined_behaviour"
proof -
  obtain s where s: "built_request lib m argv port = Request_built s port" using built_request_built by blast
  show ?thesis using print_request_cases [of s]
    by (elim disjE) (simp_all add: s start_of_main_def then_run_def with_parser_def)
qed

section \<open>Properties\<close>

text \<open>
  C21. \<^verbatim>\<open>client.cpp\<close> never gets to its request: with fewer than five arguments it returns 1, with another method
  than \<^verbatim>\<open>get\<close> and \<^verbatim>\<open>post\<close> an exception ends it, and every other run has undefined behaviour: if not in
  the conversion of the port or in using the request as a format, then in the parser pointer that
  was never set.
\<close>

theorem client_program_undefined:
  "snd (client_program E lib library parser_failed argv) =
     (if length argv < 5 then Returns 1
      else if atoi (argv ! 3) \<noteq> None \<and> argv ! 1 \<noteq> ''get'' \<and> argv ! 1 \<noteq> ''post'' then Terminates
      else outcome.Undefined_behaviour)"
proof (cases "length argv < 5 \<or> atoi (argv ! 3) = None")
  case True
  then show ?thesis
    by (cases "length argv < 5") (simp_all add: client_program_def client_request_def start_of_main_def)
next
  case False
  then obtain v where v: "\<not> length argv < 5" "atoi (argv ! 3) = Some v" by auto
  then have run: "client_program E lib library parser_failed argv =
      start_of_main (case select_method (argv ! 1) of Inl e \<Rightarrow> Throws e
          | Inr m \<Rightarrow> built_request lib (method_to_string lib m) argv (to_u16 v))
        (with_parser E library parser_failed None (argv ! 2))"
    by (simp only: client_program_def client_request_def if_False option.case)
  show ?thesis
  proof (cases "select_method (argv ! 1)")
    case (Inl e)
    then have "argv ! 1 \<noteq> ''get'' \<and> argv ! 1 \<noteq> ''post''" by (auto simp: select_method_def)
    then show ?thesis by (simp only: run Inl sum.case start_of_main_def main_result.case v snd_conv) simp
  next
    case (Inr m)
    then have "argv ! 1 = ''get'' \<or> argv ! 1 = ''post''" by (auto simp: select_method_def split: if_splits)
    then show ?thesis by (simp only: run Inr sum.case send_is_undefined v) auto
  qed
qed

text \<open>
  What \<^verbatim>\<open>do_request\<close> of \<^verbatim>\<open>client.cpp\<close> does, given a parser, happens in one order and stops at the first thing
  that fails: the address is shown, the resolver is asked for the family of that address, the socket
  connects, the request is written, the callbacks print, the socket is closed. It returns exactly
  if it got to the end.
\<close>

theorem do_request_stages:
  "\<exists>n host v4 shown. fst (do_request_run E library parser_failed flag p request addr port) =
      take n [Address host v4, Resolve v4 host (dec_of_nat (unat port)), Connect, Sent request, Text shown,
              Closed] \<and>
    n \<le> 6 \<and> (snd (do_request_run E library parser_failed flag p request addr port) = Returns ()) = (n = 6)"
proof (cases "from_string E addr")
  case None
  then show ?thesis by (intro exI [of _ 0]) (simp add: do_request_run_def do_with_socket_def)
next
  case (Some a)
  obtain v4 host where a: "a = (v4, host)" by (cases a)
  obtain n shown where n: "fst (with_connection E v4 host port (request_lambda E library parser_failed flag p request)) =
      take n [Resolve v4 host (dec_of_nat (unat port)), Connect, Sent request, Text shown, Closed]"
      "n \<le> 5" "(snd (with_connection E v4 host port (request_lambda E library parser_failed flag p request)) =
        Returns ()) = (n = 5)"
    using connection_stages [OF lambda_stages [of E library parser_failed flag p request],
        of E v4 host port]
    by (elim exE conjE) (rule that)
  have "do_request_run E library parser_failed flag p request addr port =
      then_run (print_lines [Address host v4])
        (\<lambda>_. with_connection E v4 host port (request_lambda E library parser_failed flag p request))"
    by (simp add: do_request_run_def do_with_socket_def request_lambda_def Some a)
  then show ?thesis using n
    by (intro exI [of _ "Suc n"] exI [of _ host] exI [of _ v4] exI [of _ shown]) simp
qed

text \<open>
  C20. With a parser, a connection that delivers its response in pieces and ends makes the callbacks print,
  in order, exactly what the parser finds in the pieces that are handed to it: none if everything
  arrived with the header, else all of them.
\<close>

theorem do_request_prints_callbacks:
  assumes "from_string E addr = Some (v4, host)"
    and "resolve E v4 host (dec_of_nat (unat port)) = Some eps" and "connects E eps"
    and "write_ok E request" and "until_answer E = Some buf" and "read_answers E = deliver ds Eof"
    and "list_all (\<lambda>d. d \<noteq> []) ds"
  shows "do_request_run E library parser_failed flag p request addr port =
    ([Address host v4, Resolve v4 host (dec_of_nat (unat port)), Connect, Sent request,
      Text (concat (map (callback_output flag)
        (parser_events library p (if ds = [] then [] else (buf @ hd ds) # tl ds)))), Closed], Returns ())"
proof -
  have seg: "segments buf ds = (if ds = [] then [] else (buf @ hd ds) # tl ds)"
    by (cases ds) (simp_all add: segments_def)
  obtain q n where "do_request (execute_with library flag) (parser_failed \<circ> fst) (p, []) (Some buf)
      (deliver ds Eof) =
    Done ((q, concat (map (callback_output flag) (parser_events library p (segments buf ds)))), n)"
    using do_request_with_callbacks [OF assms(7), of library flag "parser_failed \<circ> fst" p buf] by blast
  then show ?thesis using assms(1-6)
    by (simp add: do_request_run_def do_with_socket_def with_connection_def send_request_def
        run_of_read_def then_run_def print_lines_def seg)
qed

text \<open>
  The client with custom methods ends without undefined behaviour only if the whole response came
  together with its header, and then what it collected is the empty string; otherwise the loop
  prints an object as if it were a C string.
\<close>

theorem do_request_custom_collects_nothing:
  assumes "until_answer E = Some buf" and "read_answers E = deliver ds Eof"
    and "list_all (\<lambda>d. d \<noteq> []) ds"
  shows "(snd (do_request_custom_run E request addr port) = Returns ()) =
      (ds = [] \<and> write_ok E request \<and>
       (\<exists>eps. resolve E True addr (dec_of_nat (unat port)) = Some eps \<and> connects E eps)) \<and>
    (Collected s \<in> set (fst (do_request_custom_run E request addr port)) \<longrightarrow> s = [] \<and> ds = [])"
proof -
  note lambda = custom_lambda_delivers [OF assms, of request]
  have "snd (do_request_custom_run E request addr port) = Returns () \<longleftrightarrow>
      (\<exists>eps x. resolve E True addr (dec_of_nat (unat port)) = Some eps \<and> connects E eps \<and>
        snd (custom_lambda E request) = Returns x)"
    by (simp add: custom_run_lambda with_connection_returns)
  moreover have "Collected s \<in> set (fst (do_request_custom_run E request addr port)) \<Longrightarrow>
      Collected s \<in> set (fst (custom_lambda E request))"
    by (simp add: custom_run_lambda with_connection_collected)
  moreover have "Collected s \<in> set (fst (custom_lambda E request)) \<Longrightarrow> s = [] \<and> ds = []"
    by (simp add: lambda split: if_splits)
  moreover have "(\<exists>x. snd (custom_lambda E request) = Returns x) = (ds = [] \<and> write_ok E request)"
    by (simp add: lambda)
  ultimately show ?thesis by blast
qed

subsection \<open>A small instance\<close>

definition sample_net :: "string list \<Rightarrow> nat net_env" where
  "sample_net ds =
     \<lparr>from_string = (\<lambda>s. Some (True, s)), resolve = (\<lambda>v4 h s. Some [1]), connects = (\<lambda>eps. True),
      write_ok = (\<lambda>r. True), until_answer = Some ''head'', read_answers = deliver ds Eof\<rparr>"

theorem do_request_prints_callbacks_witness:
  "do_request_run (sample_net [''tail'']) (\<lambda>p s. (p + length s, [On_body s])) (\<lambda>p. False) 666 (0::nat)
     ''GET'' ''10.0.0.1'' 80 =
   ([Address ''10.0.0.1'' True, Resolve True ''10.0.0.1'' (dec_of_nat (unat (80::u16))), Connect,
     Sent ''GET'',
     Text (concat (map (callback_output 666)
       (parser_events (\<lambda>p s. (p + length s, [On_body s])) (0::nat)
         (if [''tail''] = [] then [] else (''head'' @ hd [''tail'']) # tl [''tail''])))), Closed],
    Returns ())"
  by (rule do_request_prints_callbacks [where eps = "[1]"]) (simp_all add: sample_net_def)

lemma sample_net_sel:
  "until_answer (sample_net ds) = Some ''head''" "read_answers (sample_net ds) = deliver ds Eof"
  "resolve (sample_net ds) v4 h s = Some [1]" "connects (sample_net ds) eps" "write_ok (sample_net ds) r"
  by (simp_all add: sample_net_def)

theorem do_request_custom_collects_nothing_witness:
  "snd (do_request_custom_run (sample_net []) ''GET'' ''10.0.0.1'' 80) = Returns () \<and>
   snd (do_request_custom_run (sample_net [''tail'']) ''GET'' ''10.0.0.1'' 80) \<noteq> Returns ()"
  using do_request_custom_collects_nothing [OF sample_net_sel(1,2), of "[]" "''GET''" "''10.0.0.1''" 80]
    do_request_custom_collects_nothing [OF sample_net_sel(1,2), of "[''tail'']" "''GET''" "''10.0.0.1''" 80]
  by (simp add: sample_net_sel)

end
