(* ===== verification/Dht_Async.thy ===== *)
theory Dht_Async
  imports Event_Machine Printf
begin

section \<open>Clients whose callbacks wait for a periodic call (cpp/opendht/dhtclient\_async.cpp, future-get.cpp)\<close>

text \<open>
  A DHT proxy client receives the answers on threads of its own, but queues the callbacks;
  \<^verbatim>\<open>client.periodic(...)\<close> runs what is queued, on the thread that calls it. A program
  is the list of the calls its \<^verbatim>\<open>main\<close> still makes; an event is the next of them, or a
  callback that the library queues. What the callbacks log goes through \<^verbatim>\<open>printf\<close>.
\<close>

datatype main_call =
    Listen
  | Put nat string
  | Get nat
  | Sleep nat
  | Periodic
  | Connectivity_changed

datatype 'cb dht_event = Next | Queue 'cb

subsection \<open>dhtclient\_async.cpp\<close>

definition ok_arg :: "bool \<Rightarrow> arg" where
  "ok_arg ok = Int_arg (if ok then 1 else 0)"

text \<open>A callback with its arguments; values are given as their \<^verbatim>\<open>toString()\<close>.\<close>

datatype async_callback =
    Listen_cb "string list" bool
  | Put_done nat bool
  | Get_value string
  | Get_done bool

text \<open>The format and the arguments each lambda hands to the logger; the listener's text is its format.\<close>

definition values_text :: "string \<Rightarrow> string list \<Rightarrow> string" where
  "values_text tag vs = tag @ concat (map (\<lambda>v. v @ '' '') vs)"

fun log_call :: "async_callback \<Rightarrow> string \<times> arg list" where
  "log_call (Listen_cb vs expired) = (c_str (values_text ''[listen::cb] values = '' vs), [])"
| "log_call (Put_done n ok) = (''[put'' @ dec_of_nat n @ ''::donecb] ok=%i'', [ok_arg ok])"
| "log_call (Get_value v) = (''[get1::cb] value=%s'', [Str_arg v])"
| "log_call (Get_done ok) = (''[get1::donecb] ok=%i'', [ok_arg ok])"

record async_client =
  todo :: "main_call list"
  started :: "main_call list"
  queued :: "async_callback list"
  logged :: "string option list"

definition async_calls :: "main_call list" where
  "async_calls =
     [Listen, Put 1 ''slenderman'', Put 2 ''spidergurl'', Get 1, Sleep 2, Periodic, Sleep 20,
      Connectivity_changed, Sleep 20]"

text \<open>\<^verbatim>\<open>main\<close>: the exit status 1, or the client with everything still to do.\<close>

definition async_main :: "string list \<Rightarrow> int + async_client" where
  "async_main argv =
     (if length argv < 4 then Inl 1
      else Inr \<lparr>todo = async_calls, started = [], queued = [], logged = []\<rparr>)"

text \<open>\<open>None\<close> in the log is a call whose behaviour is undefined.\<close>

definition run_queued :: "async_client \<Rightarrow> async_client" where
  "run_queued s =
     s\<lparr>queued := [], logged := logged s @ map (\<lambda>cb. case log_call cb of (f, args) \<Rightarrow> printf f args) (queued s)\<rparr>"

definition async_step :: "async_client \<Rightarrow> async_callback dht_event \<Rightarrow> async_client" where
  "async_step s e =
     (case e of
        Queue cb \<Rightarrow> s\<lparr>queued := queued s @ [cb]\<rparr>
      | Next \<Rightarrow>
          (case todo s of
             [] \<Rightarrow> s
           | c # cs \<Rightarrow>
               (let t = s\<lparr>todo := cs, started := started s @ [c]\<rparr> in
                if c = Periodic then run_queued t else t)))"

subsection \<open>future-get.cpp\<close>

text \<open>
  The values collected for the future are moved into it by the first completion (\<open>None\<close> from then on);
  a second completion finds the promise satisfied, and \<^verbatim>\<open>set_value\<close> throws; what the library
  does with an exception of a callback is not modelled, so the run ends there. The loop of \<^verbatim>\<open>main\<close> sleeps and
  calls \<^verbatim>\<open>periodic\<close>, for ever. \<open>handled\<close> is a record of the callbacks that ran.
\<close>

datatype future_callback =
    Future_values "string list"
  | Future_done bool
  | Plain_values "string list"
  | Plain_done bool

record future_client =
  ftodo :: "main_call list"
  fqueued :: "future_callback list"
  handled :: "future_callback list"
  fprinted :: "string option list"
  collected :: "string list option"
  promised :: "string list option"
  thrown :: bool

definition future_main :: "string list \<Rightarrow> int + future_client" where
  "future_main argv =
     (if length argv < 3 then Inl 1
      else Inr \<lparr>ftodo = [Get 1, Get 2], fqueued = [], handled = [], fprinted = [], collected = Some [],
               promised = None, thrown = False\<rparr>)"

definition future_get_line :: string where
  "future_get_line = ''=============== in future get ================='' @ [LF]"

definition future_done_format :: string where
  "future_done_format = ''=============== in future done (%s) ================='' @ [LF]"

definition fprint :: "string \<Rightarrow> arg list \<Rightarrow> future_client \<Rightarrow> future_client" where
  "fprint f args s = s\<lparr>fprinted := fprinted s @ [printf f args]\<rparr>"

definition set_value :: "future_client \<Rightarrow> future_client" where
  "set_value s =
     (if promised s \<noteq> None then s\<lparr>thrown := True\<rparr>
      else s\<lparr>promised := collected s, collected := None\<rparr>)"

fun on_callback :: "future_callback \<Rightarrow> future_client \<Rightarrow> future_client" where
  "on_callback (Future_values vs) s =
     (fprint future_get_line [] s)\<lparr>collected := map_option (\<lambda>xs. xs @ vs) (collected s)\<rparr>"
| "on_callback (Future_done ok) s =
     set_value (fprint future_done_format [Str_arg (if ok then ''true'' else ''false'')] s)"
| "on_callback (Plain_values vs) s = fprint (c_str (values_text ''[get::cb] values = '' vs)) [] s"
| "on_callback (Plain_done ok) s = fprint ''[get1::donecb] ok=%i'' [ok_arg ok] s"

fun run_callbacks :: "future_callback list \<Rightarrow> future_client \<Rightarrow> future_client" where
  "run_callbacks [] s = s"
| "run_callbacks (cb # cbs) s =
     (let t = (on_callback cb s)\<lparr>handled := handled s @ [cb]\<rparr> in
      if thrown t then t\<lparr>fqueued := cbs\<rparr> else run_callbacks cbs t)"

definition future_step :: "future_client \<Rightarrow> future_callback dht_event \<Rightarrow> future_client" where
  "future_step s e =
     (if thrown s then s
      else case e of
          Queue cb \<Rightarrow> s\<lparr>fqueued := fqueued s @ [cb]\<rparr>
        | Next \<Rightarrow>
            (case ftodo s of
               [] \<Rightarrow> s\<lparr>ftodo := [Periodic]\<rparr>
             | c # cs \<Rightarrow>
                 if c = Periodic then run_callbacks (fqueued s) (s\<lparr>ftodo := cs, fqueued := []\<rparr>)
                 else s\<lparr>ftodo := cs\<rparr>))"

subsection \<open>Laws: one call of periodic\<close>

fun callbacks_of :: "'cb dht_event list \<Rightarrow> 'cb list" where
  "callbacks_of [] = []"
| "callbacks_of (Queue cb # es) = cb # callbacks_of es"
| "callbacks_of (Next # es) = callbacks_of es"

text \<open>The events before the call of \<^verbatim>\<open>main\<close> number \<open>n\<close>, counted from 0, and those after it.\<close>

fun cut_at ::
  "nat \<Rightarrow> 'cb dht_event list \<Rightarrow> ('cb dht_event list \<times> 'cb dht_event list) option" where
  "cut_at n [] = None"
| "cut_at n (Queue cb # es) = map_option (\<lambda>(a, b). (Queue cb # a, b)) (cut_at n es)"
| "cut_at n (Next # es) =
     (case n of 0 \<Rightarrow> Some ([], es) | Suc k \<Rightarrow> map_option (\<lambda>(a, b). (Next # a, b)) (cut_at k es))"

definition log_of :: "async_callback \<Rightarrow> string option" where
  "log_of cb = (case log_call cb of (f, args) \<Rightarrow> printf f args)"

lemma run_queued_logs:
  "run_queued s = s\<lparr>queued := [], logged := logged s @ map log_of (queued s)\<rparr>"
  by (simp add: run_queued_def log_of_def)

lemma async_step_simps [simp]:
  "async_step s (Queue cb) = s\<lparr>queued := queued s @ [cb]\<rparr>"
  "todo s = [] \<Longrightarrow> async_step s Next = s"
  "todo s = Periodic # cs \<Longrightarrow>
     async_step s Next = run_queued (s\<lparr>todo := cs, started := started s @ [Periodic]\<rparr>)"
  "todo s = c # cs \<Longrightarrow> c \<noteq> Periodic \<Longrightarrow>
     async_step s Next = s\<lparr>todo := cs, started := started s @ [c]\<rparr>"
  by (simp_all add: async_step_def Let_def)

lemma after_periodic:
  "Periodic \<notin> set (todo s) \<Longrightarrow>
     logged (run_events async_step s es) = logged s \<and>
     queued (run_events async_step s es) = queued s @ callbacks_of es"
proof (induction es arbitrary: s)
  case (Cons e es)
  then show ?case by (cases e; cases "todo s") auto
qed simp

lemma until_periodic:
  assumes "todo s = cs @ Periodic # ds" and "Periodic \<notin> set cs" and "Periodic \<notin> set ds"
  shows "case cut_at (length cs) es of
      None \<Rightarrow> logged (run_events async_step s es) = logged s
    | Some (a, b) \<Rightarrow>
        logged (run_events async_step s es) = logged s @ map log_of (queued s @ callbacks_of a) \<and>
        queued (run_events async_step s es) = callbacks_of b"
  using assms
proof (induction es arbitrary: s cs)
  case (Cons e es)
  show ?case
  proof (cases e)
    case (Queue cb)
    then show ?thesis using Cons.IH [of "async_step s e" cs] Cons.prems
      by (auto split: option.splits)
  next
    case Next
    show ?thesis
    proof (cases cs)
      case Nil
      then show ?thesis using Next Cons.prems by (simp add: run_queued_logs after_periodic)
    next
      case (Cons c cs')
      then show ?thesis using Next Cons.IH [of "async_step s e" cs'] Cons.prems
        by (auto split: option.splits)
    qed
  qed
qed simp

subsection \<open>Laws: a loop of periodic calls\<close>

text \<open>What the callbacks so far print, collect and promise.\<close>

definition future_done_line :: "bool \<Rightarrow> string" where
  "future_done_line ok =
     ''=============== in future done ('' @ (if ok then ''true'' else ''false'') @ '') ================='' @ [LF]"

fun printed_of :: "future_callback \<Rightarrow> string option" where
  "printed_of (Future_values vs) = Some future_get_line"
| "printed_of (Future_done ok) = Some (future_done_line ok)"
| "printed_of (Plain_values vs) = printf (c_str (values_text ''[get::cb] values = '' vs)) []"
| "printed_of (Plain_done ok) = Some (''[get1::donecb] ok='' @ (if ok then ''1'' else ''0''))"

fun values_of :: "future_callback \<Rightarrow> string list" where
  "values_of (Future_values vs) = vs"
| "values_of cb = []"

fun is_done :: "future_callback \<Rightarrow> bool" where
  "is_done (Future_done ok) = True"
| "is_done cb = False"

definition dones :: "future_callback list \<Rightarrow> nat" where
  "dones cbs = length (filter is_done cbs)"

text \<open>The value of the future: what was reported before the first completion.\<close>

definition future_value :: "future_callback list \<Rightarrow> string list option" where
  "future_value cbs =
     (if dones cbs = 0 then None
      else Some (concat (map values_of (takeWhile (\<lambda>cb. \<not> is_done cb) cbs))))"

definition future_inv :: "future_client \<Rightarrow> bool" where
  "future_inv s =
     (fprinted s = map printed_of (handled s) \<and>
      promised s = future_value (handled s) \<and>
      collected s = (if dones (handled s) = 0 then Some (concat (map values_of (handled s))) else None) \<and>
      thrown s = (2 \<le> dones (handled s)))"

lemma takeWhile_snoc_done:
  "takeWhile (\<lambda>cb. \<not> is_done cb) (cbs @ [cb]) =
     (if dones cbs = 0 then cbs @ (if is_done cb then [] else [cb])
      else takeWhile (\<lambda>cb. \<not> is_done cb) cbs)"
  by (induction cbs) (auto simp: dones_def)

lemma dones_snoc [simp]: "dones (cbs @ [cb]) = dones cbs + (if is_done cb then 1 else 0)"
  by (simp add: dones_def)

lemma future_value_snoc:
  "future_value (cbs @ [cb]) =
     (if dones cbs \<noteq> 0 then future_value cbs
      else if is_done cb then Some (concat (map values_of cbs)) else None)"
  by (simp add: future_value_def takeWhile_snoc_done)

lemma ok_arg_printed: "printf ''[get1::donecb] ok=%i'' [ok_arg ok] =
    Some (''[get1::donecb] ok='' @ (if ok then ''1'' else ''0''))"
  by (cases ok) (simp_all add: printf_def ok_arg_def dec_of_int_def dec_of_nat_small)

lemma future_printed:
  "printf future_get_line [] =
     Some future_get_line"
  "printf future_done_format
     [Str_arg (if ok then ''true'' else ''false'')] =
   Some (future_done_line ok)"
  by (simp_all add: printf_def future_get_line_def future_done_format_def future_done_line_def)

lemma future_value_done: "future_value cbs = None \<longleftrightarrow> dones cbs = 0"
  by (simp add: future_value_def)

lemma on_callback_inv:
  assumes "future_inv s" and "\<not> thrown s"
  shows "future_inv ((on_callback cb s)\<lparr>handled := handled s @ [cb]\<rparr>)"
proof -
  have few: "dones (handled s) \<le> 1" using assms by (simp add: future_inv_def)
  note inv = assms(1) [unfolded future_inv_def]
  show ?thesis
  proof (cases cb)
    case (Future_done ok)
    then show ?thesis using inv few
      by (cases "dones (handled s) = 0")
        (simp_all add: future_inv_def fprint_def set_value_def future_printed(2) future_value_snoc
          future_value_done)
  qed (use inv few in \<open>simp_all add: future_inv_def fprint_def future_printed(1) ok_arg_printed
      future_value_snoc future_value_done\<close>)
qed

lemma on_callback_frame [simp]:
  "fqueued (on_callback cb s) = fqueued s" "ftodo (on_callback cb s) = ftodo s"
  by (cases cb; simp add: fprint_def set_value_def)+

lemma run_callbacks_inv:
  assumes "future_inv s" and "\<not> thrown s" and "fqueued s = []"
  shows "future_inv (run_callbacks cbs s) \<and>
    handled (run_callbacks cbs s) @ fqueued (run_callbacks cbs s) = handled s @ cbs \<and>
    ftodo (run_callbacks cbs s) = ftodo s \<and>
    (thrown (run_callbacks cbs s) \<or> fqueued (run_callbacks cbs s) = [])"
  using assms
proof (induction cbs arbitrary: s)
  case (Cons cb cbs)
  let ?t = "(on_callback cb s)\<lparr>handled := handled s @ [cb]\<rparr>"
  have t: "future_inv ?t" using on_callback_inv Cons.prems by blast
  show ?case
  proof (cases "thrown ?t")
    case True
    then show ?thesis using t by (simp add: Let_def future_inv_def)
  next
    case False
    then show ?thesis using Cons.IH [OF t] Cons.prems by (simp add: Let_def)
  qed
qed simp

lemma future_step_inv: "future_inv s \<Longrightarrow> future_inv (future_step s e)"
proof (cases e)
  case Next
  assume inv: "future_inv s"
  have quiet: "future_inv (s\<lparr>ftodo := cs, fqueued := q\<rparr>)" for cs q
    using inv by (simp add: future_inv_def)
  show ?thesis
  proof (cases "thrown s")
    case False
    have "future_inv (run_callbacks (fqueued s) (s\<lparr>ftodo := cs, fqueued := []\<rparr>))" for cs
      using run_callbacks_inv [OF quiet [of "[]" cs]] False by simp
    moreover have "future_inv (s\<lparr>ftodo := cs\<rparr>)" for cs using inv by (simp add: future_inv_def)
    ultimately show ?thesis using Next False
      by (cases "ftodo s") (simp_all add: future_step_def)
  qed (use inv in \<open>simp add: future_step_def\<close>)
qed (simp add: future_step_def future_inv_def)

interpretation future: event_machine future_step "\<lambda>s e. True" future_inv
  by unfold_locales (rule future_step_inv)

lemma legal_always [simp]: "legal_events (\<lambda>s e. True) step s es"
  by (induction es arbitrary: s) simp_all

lemma future_callbacks:
  assumes "future_inv s"
  shows "\<exists>rest. handled s @ fqueued s @ callbacks_of es =
      handled (run_events future_step s es) @ fqueued (run_events future_step s es) @ rest \<and>
    (thrown (run_events future_step s es) \<or> rest = [])"
  using assms
proof (induction es arbitrary: s)
  case (Cons e es)
  have inv: "future_inv (future_step s e)" using Cons.prems by (rule future_step_inv)
  show ?case
  proof (cases "thrown s")
    case True
    then have "run_events future_step s (e # es) = s"
      by (induction es) (simp_all add: future_step_def)
    then show ?thesis using True by simp
  next
    case False
    have quiet: "future_inv (s\<lparr>ftodo := cs, fqueued := []\<rparr>)" for cs
      using Cons.prems by (simp add: future_inv_def)
    have "handled (future_step s e) @ fqueued (future_step s e) @ callbacks_of es =
        handled s @ fqueued s @ callbacks_of (e # es)"
    proof (cases e)
      case Next
      then show ?thesis using False run_callbacks_inv [OF quiet, of "tl (ftodo s)" "fqueued s"]
        by (cases "ftodo s") (simp_all add: future_step_def flip: append_assoc)
    qed (simp add: future_step_def False)
    with Cons.IH [OF inv] show ?thesis by simp
  qed
qed simp

lemma future_main_inv: "future_main argv = Inr s \<Longrightarrow> future_inv s \<and> handled s = [] \<and> fqueued s = []"
  by (auto simp: future_main_def future_inv_def future_value_def dones_def split: if_splits)

text \<open>Whatever \<^verbatim>\<open>main\<close> is about to do, its next calls of \<^verbatim>\<open>periodic\<close> are at most four calls away.\<close>

definition near_periodic :: "future_client \<Rightarrow> bool" where
  "near_periodic s = (ftodo s \<in> {[Get 1, Get 2], [Get 2], [], [Periodic]})"

lemma near_periodic_step: "near_periodic s \<Longrightarrow> future_inv s \<Longrightarrow> near_periodic (future_step s e)"
proof -
  assume near: "near_periodic s" and inv: "future_inv s"
  have "future_inv (s\<lparr>ftodo := [], fqueued := []\<rparr>)" using inv by (simp add: future_inv_def)
  from run_callbacks_inv [OF this] near show ?thesis
    by (cases e) (auto simp: near_periodic_def future_step_def)
qed

lemma near_periodic_run:
  assumes "near_periodic s" and "future_inv s"
  shows "near_periodic (run_events future_step s es)"
  by (rule future.run_stays [where P = near_periodic])
    (use assms near_periodic_step in \<open>simp_all\<close>)

lemma periodic_empties:
  assumes "future_inv s" and "ftodo s = [Periodic]"
  shows "thrown (future_step s Next) \<or> fqueued (future_step s Next) = []"
proof (cases "thrown s")
  case False
  have "future_inv (s\<lparr>ftodo := [], fqueued := []\<rparr>)" using assms(1) by (simp add: future_inv_def)
  from run_callbacks_inv [OF this] False assms(2) show ?thesis by (simp add: future_step_def)
qed (simp add: future_step_def)

lemma future_step_quiet:
  assumes "\<not> thrown s"
  shows "ftodo s = [] \<Longrightarrow> future_step s Next = s\<lparr>ftodo := [Periodic]\<rparr>"
    and "ftodo s = Get n # cs \<Longrightarrow> future_step s Next = s\<lparr>ftodo := cs\<rparr>"
  using assms by (simp_all add: future_step_def)

lemma four_calls_empty:
  assumes "future_inv s" and "near_periodic s"
  shows "\<exists>k \<le> 4. thrown (run_events future_step s (replicate k Next)) \<or>
    fqueued (run_events future_step s (replicate k Next)) = []"
proof (cases "thrown s")
  case True
  then show ?thesis by (intro exI [of _ 0]) simp
next
  case False
  let ?p = "s\<lparr>ftodo := [Periodic]\<rparr>"
  have "future_inv ?p" using assms(1) by (simp add: future_inv_def)
  from periodic_empties [OF this]
  have empty: "thrown (future_step ?p Next) \<or> fqueued (future_step ?p Next) = []" by simp
  have "\<exists>k \<le> 4. run_events future_step s (replicate k Next) = future_step ?p Next"
  proof -
    from assms(2) consider "ftodo s = [Get 1, Get 2]" | "ftodo s = [Get 2]" | "ftodo s = []"
      | "ftodo s = [Periodic]" unfolding near_periodic_def by blast
    then show ?thesis
    proof cases
      case 1
      then show ?thesis using False
        by (intro exI [of _ 4]) (simp add: numeral_eq_Suc future_step_quiet)
    next
      case 2
      then show ?thesis using False
        by (intro exI [of _ 3]) (simp add: numeral_eq_Suc future_step_quiet)
    next
      case 3
      then show ?thesis using False
        by (intro exI [of _ 2]) (simp add: numeral_eq_Suc future_step_quiet)
    next
      case 4
      then have "?p = s" by simp
      then show ?thesis by (intro exI [of _ 1]) simp
    qed
  qed
  with empty show ?thesis by metis
qed

section \<open>Properties\<close>

text \<open>
  C24. \<open>dhtclient_async.cpp\<close> calls \<^verbatim>\<open>periodic\<close> once: whatever arrives, in whatever order, the log holds exactly
  the lines of the callbacks that were queued before that call, which is the sixth of \<^verbatim>\<open>main\<close>, and the callbacks
  queued after it stay queued for ever; the restart of the listeners changes nothing.
\<close>

theorem async_logs_first_answers:
  "case async_main argv of
     Inl n \<Rightarrow> n = 1 \<and> length argv < 4
   | Inr s \<Rightarrow>
       (case cut_at 5 es of
          None \<Rightarrow> logged (run_events async_step s es) = []
        | Some (before, later) \<Rightarrow>
            logged (run_events async_step s es) = map log_of (callbacks_of before) \<and>
            queued (run_events async_step s es) = callbacks_of later)"
proof (cases "length argv < 4")
  case False
  have "todo \<lparr>todo = async_calls, started = [], queued = [], logged = []\<rparr> =
      [Listen, Put 1 ''slenderman'', Put 2 ''spidergurl'', Get 1, Sleep 2] @
      Periodic # [Sleep 20, Connectivity_changed, Sleep 20]"
    by (simp add: async_calls_def)
  from until_periodic [OF this, of es] False show ?thesis
    by (auto simp: async_main_def numeral_eq_Suc split: option.splits)
qed (simp add: async_main_def)

text \<open>
  Listed values are the format of the log line: values without a percent sign and without a NUL are logged as
  they are, and a value with a conversion, which any peer can put on the DHT, is undefined behaviour; the value of a \<open>get\<close> is an argument.
\<close>

theorem listed_values_are_the_format:
  "(list_all (\<lambda>v. CHR ''%'' \<notin> set v \<and> NUL \<notin> set v) vs \<longrightarrow>
     log_of (Listen_cb vs x) = Some (values_text ''[listen::cb] values = '' vs)) \<and>
   log_of (Listen_cb [''100%s''] x) = None \<and> log_of (Get_value v) = Some (''[get1::cb] value='' @ c_str v)"
proof (intro conjI impI)
  assume "list_all (\<lambda>v. CHR ''%'' \<notin> set v \<and> NUL \<notin> set v) vs"
  then have "CHR ''%'' \<notin> set (values_text ''[listen::cb] values = '' vs)"
    and nul: "NUL \<notin> set (values_text ''[listen::cb] values = '' vs)"
    by (auto simp: values_text_def list_all_iff)
  from plain_format [OF this]
  show "log_of (Listen_cb vs x) = Some (values_text ''[listen::cb] values = '' vs)"
    by (simp add: log_of_def c_str_id [OF nul])
qed (simp_all add: log_of_def printf_def values_text_def dec_of_nat_small)

theorem listed_values_are_the_format_witness:
  "log_of (Listen_cb [''one'', ''two''] False) = Some (values_text ''[listen::cb] values = '' [''one'', ''two''])"
  using listed_values_are_the_format [of "[''one'', ''two'']" False "[]"] by simp

text \<open>
  C33. \<open>future-get.cpp\<close> never returns, and its callbacks run in the order in which they were queued:
  what is printed, and the value of the future, are those of a prefix of them, and everything queued has run
  within four calls of \<^verbatim>\<open>main\<close>, unless a second completion of the first get made \<^verbatim>\<open>set_value\<close> throw.
\<close>

theorem future_get_value:
  assumes "future_main argv = Inr s" and "t = run_events future_step s es"
  shows "prefix (handled t) (callbacks_of es) \<and>
    fprinted t = map printed_of (handled t) \<and> promised t = future_value (handled t) \<and>
    thrown t = (2 \<le> dones (handled t)) \<and>
    (\<exists>k \<le> 4. thrown (run_events future_step t (replicate k Next)) \<or>
      handled (run_events future_step t (replicate k Next)) = callbacks_of es)"
proof -
  have s: "future_inv s" "handled s = []" "fqueued s = []" "near_periodic s"
    using future_main_inv [OF assms(1)] assms(1)
    by (auto simp: future_main_def near_periodic_def split: if_splits)
  have t: "future_inv t" "near_periodic t"
    using future.run_inv [OF s(1) legal_always] near_periodic_run [OF s(4,1)] by (simp_all add: assms(2))
  have order: "handled (run_events future_step s fs) @ fqueued (run_events future_step s fs) @ rest =
      callbacks_of fs \<Longrightarrow> prefix (handled (run_events future_step s fs)) (callbacks_of fs)" for fs rest
    by (metis prefixI)
  obtain k where k: "k \<le> 4" "thrown (run_events future_step t (replicate k Next)) \<or>
      fqueued (run_events future_step t (replicate k Next)) = []"
    using four_calls_empty [OF t] by blast
  have "callbacks_of (es @ replicate k Next) = callbacks_of es"
    by (induction es rule: callbacks_of.induct) (simp_all, induction k, simp_all)
  with future_callbacks [OF s(1), of "es @ replicate k Next"] s k(2)
  have "thrown (run_events future_step t (replicate k Next)) \<or>
      handled (run_events future_step t (replicate k Next)) = callbacks_of es"
    by (auto simp: run_events_append assms(2))
  moreover have "prefix (handled t) (callbacks_of es)"
    using future_callbacks [OF s(1), of es] s order by (auto simp: assms(2))
  ultimately show ?thesis using t(1) k(1) by (auto simp: future_inv_def)
qed

definition sample_future :: future_client where
  "sample_future =
     \<lparr>ftodo = [Get 1, Get 2], fqueued = [], handled = [], fprinted = [], collected = Some [],
      promised = None, thrown = False\<rparr>"

definition sample_events :: "future_callback dht_event list" where
  "sample_events = [Next, Next, Next, Queue (Future_values [''a'']), Queue (Future_done True), Next]"

theorem future_get_value_witness:
  "future_main [''run'', ''key'', ''addr''] = Inr sample_future \<and>
   promised (run_events future_step sample_future sample_events) = Some [''a'']"
proof
  show main: "future_main [''run'', ''key'', ''addr''] = Inr sample_future"
    by (simp add: future_main_def sample_future_def)
  have "handled (run_events future_step sample_future sample_events) =
      [Future_values [''a''], Future_done True]"
    by (simp add: sample_future_def sample_events_def future_step_def fprint_def set_value_def Let_def)
  with future_get_value [OF main refl, of sample_events]
  show "promised (run_events future_step sample_future sample_events) = Some [''a'']"
    by (simp add: future_value_def dones_def)
qed

end
