(* ===== verification/Async_Connection.thy ===== *)
theory Async_Connection
  imports Async_Client2 Printf
begin

section \<open>The connection object of client2.cpp\<close>

text \<open>
  The class \<^verbatim>\<open>Connection\<close> wraps a socket; the resolve handler of theory Async\_Client2 is modelled there by
  what it prints and delivers. Here the handler works on a connection object, as the source has it, and
  is proved to be the same; the socket, and what was sent on it, are then also known.
\<close>

datatype socket = Unopened | Connected | Closed_socket

record connection =
  id_of :: u16
  socket_state :: socket
  sent :: string

definition new_connection :: "u16 \<Rightarrow> connection" where
  "new_connection i = \<lparr>id_of = i, socket_state = Unopened, sent = []\<rparr>"

text \<open>
  \<^verbatim>\<open>asio::connect\<close> throws when no endpoint accepts (\<open>None\<close>); whether the socket is open when it returns is for the
  library to say.
\<close>

definition conn_start :: "bool \<Rightarrow> bool \<Rightarrow> connection \<Rightarrow> connection option" where
  "conn_start connected opened conn =
     (if connected then Some (if opened then conn\<lparr>socket_state := Connected\<rparr> else conn) else None)"

definition conn_open :: "connection \<Rightarrow> bool" where
  "conn_open conn = (socket_state conn = Connected)"

definition conn_write :: "string \<Rightarrow> nat \<Rightarrow> connection \<Rightarrow> connection" where
  "conn_write data n conn = conn\<lparr>sent := sent conn @ take n data\<rparr>"

definition conn_close :: "connection \<Rightarrow> connection" where
  "conn_close conn = conn\<lparr>socket_state := Closed_socket\<rparr>"

text \<open>
  What the library answers: the resolution with its host and service names, whether the first
  endpoint accepts and leaves the socket open, how many bytes \<^verbatim>\<open>asio::write\<close> sent and its error code, what \<^verbatim>\<open>asio::read\<close> received until its error code.
\<close>

record handler_env =
  res_ec :: error_code
  res :: "(string \<times> string) list"
  accepts :: bool
  open_after :: bool
  written :: nat
  w_ec :: error_code
  received :: string
  r_ec :: error_code

definition conn_read :: "handler_env \<Rightarrow> string \<times> error_code" where
  "conn_read E = (received E, r_ec E)"

text \<open>What a run of the handler leaves: the calls of \<^verbatim>\<open>printf\<close>, the call of the callback, an exception, the connection.\<close>

record handled =
  prints :: "(string \<times> arg list) list"
  called :: "(nat \<times> string) list"
  throws :: bool
  conn_after :: connection

definition id_arg :: "connection \<Rightarrow> arg" where
  "id_arg conn = Int_arg (uint (id_of conn))"

definition resolve_handler ::
  "(error_code \<Rightarrow> string) \<Rightarrow> connection \<Rightarrow> string \<Rightarrow> nat option \<Rightarrow> handler_env \<Rightarrow> handled" where
  "resolve_handler message conn req respcb E =
     (if failed (res_ec E) \<or> res E = [] then
        \<lparr>prints = [(''[connection:%i] error resolving'' @ [LF], [id_arg conn])], called = [],
         throws = False, conn_after = conn_close conn\<rparr>
      else
        let da = hd (res E);
            p1 = [(''[connection:%i] resolved host=%s service=%s'' @ [LF],
                   [id_arg conn, Str_arg (fst da), Str_arg (snd da)])] in
        case conn_start (accepts E) (open_after E) conn of
          None \<Rightarrow> \<lparr>prints = p1, called = [], throws = True, conn_after = conn\<rparr>
        | Some conn \<Rightarrow>
            if \<not> conn_open conn then
              \<lparr>prints = p1 @ [(''[connection:%i] error closed connection'' @ [LF], [id_arg conn])],
               called = [], throws = False, conn_after = conn\<rparr>
            else
              let p2 = p1 @ [(''[connection:%i] request write'' @ [LF], [id_arg conn])];
                  conn = conn_write req (written E) conn in
              if failed (w_ec E) \<and> w_ec E \<noteq> Eof then
                \<lparr>prints = p2 @ [(''[connection:%i] error: %s'' @ [LF], [id_arg conn, Str_arg (message (w_ec E))])],
                 called = [], throws = False, conn_after = conn\<rparr>
              else
                let p3 = p2 @ [(''[connection:%i] response read'' @ [LF], [id_arg conn])];
                    (data, ec) = conn_read E in
                if failed ec \<and> ec \<noteq> Eof then
                  \<lparr>prints = p3 @ [(''[connection:%i] error: %s'' @ [LF], [id_arg conn, Str_arg (message ec)])],
                   called = [], throws = False, conn_after = conn\<rparr>
                else
                  \<lparr>prints = p3, called = (case respcb of None \<Rightarrow> [] | Some f \<Rightarrow> [(f, c_str data)]),
                   throws = False, conn_after = conn\<rparr>)"

text \<open>The two response callbacks of \<^verbatim>\<open>main\<close>.\<close>

definition print_response :: "nat \<Rightarrow> string \<Rightarrow> string \<times> arg list" where
  "print_response n resp = (''=========== '' @ dec_of_nat n @ '' =========='' @ [LF] @ ''%s'' @ [LF], [Str_arg resp])"

subsection \<open>The abstract handler\<close>

definition abstract_answer :: "handler_env \<Rightarrow> net_answer" where
  "abstract_answer E =
     \<lparr>resolve_ec = res_ec E, results_empty = (res E = []), connects = accepts E, is_open = open_after E,
      write_ec = w_ec E, read_data = received E, read_ec = r_ec E\<rparr>"

text \<open>The line of the log that a call of \<^verbatim>\<open>printf\<close> stands for.\<close>

fun line_call ::
  "(error_code \<Rightarrow> string) \<Rightarrow> string \<times> string \<Rightarrow> log_line \<Rightarrow> string \<times> arg list" where
  "line_call message da (Created i) = (''[connection:%i] created'' @ [LF], [Int_arg (uint i)])"
| "line_call message da (Error_resolving i) = (''[connection:%i] error resolving'' @ [LF], [Int_arg (uint i)])"
| "line_call message da (Resolved_host i) =
     (''[connection:%i] resolved host=%s service=%s'' @ [LF],
      [Int_arg (uint i), Str_arg (fst da), Str_arg (snd da)])"
| "line_call message da (Closed_connection i) =
     (''[connection:%i] error closed connection'' @ [LF], [Int_arg (uint i)])"
| "line_call message da (Request_write i) = (''[connection:%i] request write'' @ [LF], [Int_arg (uint i)])"
| "line_call message da (Failed i ec) =
     (''[connection:%i] error: %s'' @ [LF], [Int_arg (uint i), Str_arg (message ec)])"
| "line_call message da (Response_read i) = (''[connection:%i] response read'' @ [LF], [Int_arg (uint i)])"

text \<open>
  The handler on a connection object prints, delivers and throws as the abstract handler. The socket
  is closed only if the resolution failed; nothing is sent on a socket that is not open.
\<close>

lemma resolve_handler_abstract:
  "(case on_resolved \<lparr>conn_id = i, request = req, callback = respcb\<rparr> (abstract_answer E) of (ls, rs, t) \<Rightarrow>
      prints (resolve_handler message (new_connection i) req respcb E) =
        map (line_call message (hd (res E))) ls \<and>
      called (resolve_handler message (new_connection i) req respcb E) = rs \<and>
      throws (resolve_handler message (new_connection i) req respcb E) = t) \<and>
   (let c = conn_after (resolve_handler message (new_connection i) req respcb E) in
    socket_state c = (if failed (res_ec E) \<or> res E = [] then Closed_socket
                      else if accepts E \<and> open_after E then Connected else Unopened) \<and>
    sent c = (if failed (res_ec E) \<or> res E = [] \<or> socket_state c \<noteq> Connected then [] else take (written E) req))"
  by (cases respcb) (simp_all add: resolve_handler_def on_resolved_def abstract_answer_def new_connection_def
      conn_start_def conn_open_def id_arg_def bad_def Let_def conn_read_def conn_write_def conn_close_def)

end
