(* ===== verification/Byte_Codec.thy ===== *)
theory Byte_Codec
  imports Cpp_Std
begin

section \<open>Fixed-width encodings of bytes\<close>

text \<open>
  Two programs (\<^verbatim>\<open>ocsp.cpp\<close> and \<^verbatim>\<open>opendht/crypto.cpp\<close>) print bytes with
  \<^verbatim>\<open>std::hex << std::setw(2) << std::setfill('0') << (int)b\<close>. The locale states what makes such a
  printed sequence readable again, and is interpreted on the manipulators as they are used.
\<close>

fun decode_all :: "nat \<Rightarrow> (string \<Rightarrow> 'b option) \<Rightarrow> nat \<Rightarrow> string \<Rightarrow> 'b list option" where
  "decode_all w dec 0 s = (if s = [] then Some [] else None)"
| "decode_all w dec (Suc n) s =
     (case dec (take w s) of None \<Rightarrow> None
      | Some b \<Rightarrow> map_option (\<lambda>bs. b # bs) (decode_all w dec n (drop w s)))"

locale fixed_width_codec =
  fixes width :: nat
    and enc :: "'b \<Rightarrow> string"
    and dec :: "string \<Rightarrow> 'b option"
  assumes width_pos: "0 < width"
    and enc_width: "length (enc b) = width"
    and dec_enc: "dec (enc b) = Some b"
begin

lemma length_concat_enc: "length (concat (map enc bs)) = width * length bs"
  by (induction bs) (simp_all add: enc_width)

lemma decode_all_enc: "decode_all width dec (length bs) (concat (map enc bs)) = Some bs"
  by (induction bs) (simp_all add: enc_width dec_enc)

lemma concat_enc_inject: "concat (map enc bs) = concat (map enc cs) \<longleftrightarrow> bs = cs"
proof
  assume eq: "concat (map enc bs) = concat (map enc cs)"
  then have "width * length bs = width * length cs"
    by (metis length_concat_enc)
  then have "length bs = length cs" using width_pos by simp
  with eq have "Some bs = Some cs" by (metis decode_all_enc)
  then show "bs = cs" by simp
qed simp

end

subsection \<open>Hexadecimal output of the standard streams\<close>

definition hex_char :: "nat \<Rightarrow> char" where
  "hex_char d = (if d < 10 then char_of (48 + d) else char_of (87 + d))"

definition hex_value :: "char \<Rightarrow> nat option" where
  "hex_value c =
     (let v = of_char c :: nat in
      if 48 \<le> v \<and> v \<le> 57 then Some (v - 48)
      else if 97 \<le> v \<and> v \<le> 102 then Some (v - 87) else None)"

fun hex_of_nat :: "nat \<Rightarrow> string" where
  "hex_of_nat n =
     (if n < 16 then [hex_char n] else hex_of_nat (n div 16) @ [hex_char (n mod 16)])"

declare hex_of_nat.simps [simp del]

text \<open>\<^verbatim>\<open>setw(w)\<close> with \<^verbatim>\<open>setfill\<close> pads on the left and never cuts.\<close>

definition setw :: "nat \<Rightarrow> char \<Rightarrow> string \<Rightarrow> string" where
  "setw w fill s = replicate (w - length s) fill @ s"

definition hex_byte :: "u8 \<Rightarrow> string" where
  "hex_byte b = setw 2 (CHR ''0'') (hex_of_nat (unat b))"

definition byte_of_hex :: "string \<Rightarrow> u8 option" where
  "byte_of_hex s =
     (case s of
        [c, d] \<Rightarrow>
          (case (hex_value c, hex_value d) of
             (Some h, Some l) \<Rightarrow> Some (of_nat (16 * h + l))
           | _ \<Rightarrow> None)
      | _ \<Rightarrow> None)"

lemma hex_value_char [simp]: "d < 16 \<Longrightarrow> hex_value (hex_char d) = Some d"
  by (simp add: hex_value_def hex_char_def Let_def)

lemma hex_char_0 [simp]: "hex_char 0 = CHR ''0''"
  by (simp add: hex_char_def char_of_def bit_0)

lemma hex_byte_eq: "hex_byte b = [hex_char (unat b div 16), hex_char (unat b mod 16)]"
proof (cases "unat b < 16")
  case True
  then show ?thesis by (simp add: hex_byte_def setw_def hex_of_nat.simps)
next
  case False
  have "unat b < 256" by (rule unat_u8)
  then have "unat b div 16 < 16" by simp
  then have "hex_of_nat (unat b) = [hex_char (unat b div 16), hex_char (unat b mod 16)]"
    using False by (simp add: hex_of_nat.simps [of "unat b"] hex_of_nat.simps [of "unat b div 16"])
  then show ?thesis by (simp add: hex_byte_def setw_def)
qed

lemma byte_of_hex_byte: "byte_of_hex (hex_byte b) = Some b"
proof -
  have "unat b < 256" by (rule unat_u8)
  then have "unat b div 16 < 16" by simp
  then have "byte_of_hex (hex_byte b) = Some (of_nat (16 * (unat b div 16) + unat b mod 16))"
    by (simp add: hex_byte_eq byte_of_hex_def)
  then show ?thesis by (simp only: mult_div_mod_eq) simp
qed

interpretation hex: fixed_width_codec 2 hex_byte byte_of_hex
  by unfold_locales (simp_all add: byte_of_hex_byte, simp add: hex_byte_eq)

end
