(* ===== verification/Small_Programs.thy ===== *)
theory Small_Programs
  imports Cpp_Std Byte_Codec Program_Run Printf
begin

section \<open>Small programs\<close>

subsection \<open>The serial number of a certificate (cpp/opendht/crypto.cpp)\<close>

text \<open>
  \<^verbatim>\<open>gnutls_x509_crt_get_serial\<close> writes into a buffer of 64 bytes and sets \<open>len\<close> (\<^verbatim>\<open>size\<close>); its result is not
  looked at; \<open>old\<close> is what the buffer held before. The loop turns \<open>len\<close> bytes of the buffer into digits; a byte past its end is
  undefined.
\<close>

definition serial_hex :: "nat \<Rightarrow> u8 list \<Rightarrow> string option" where
  "serial_hex len buffer =
     (if len \<le> length buffer then Some (concat (map hex_byte (take len buffer))) else None)"

definition sn_line :: "u8 list \<Rightarrow> int \<times> nat \<times> u8 list \<Rightarrow> string option" where
  "sn_line old answer =
     (case answer of (ret, len, written) \<Rightarrow> serial_hex len (written @ drop (length written) old))"

definition cert_pem :: string where
  "cert_pem =
     ''-----BEGIN CERTIFICATE-----'' @
     ''MIICDjCCAZSgAwIBAgIIS90uAKp+u/swCgYIKoZIzj0EAwMwTDEQMA4GA1UEAxMH'' @
     ''ZGh0bm9kZTE4MDYGCgmSJomT8ixkAQETKDBlNDQxZTA4YWJmYTQzYTc3ZTVjZDBm'' @
     ''Y2QzMzAzMTc4MjYxMTk0MzIwHhcNMTkxMTA3MDA0MTMwWhcNMjkxMTA0MDA0MTMw'' @
     ''WjBMMRAwDgYDVQQDEwdkaHRub2RlMTgwNgYKCZImiZPyLGQBARMoMGU0NDFlMDhh'' @
     ''YmZhNDNhNzdlNWNkMGZjZDMzMDMxNzgyNjExOTQzMjB2MBAGByqGSM49AgEGBSuB'' @
     ''BAAiA2IABCZ7sBp0Pu+b5yIifoNXchU9crv9won0in++COWynvM4GCLF2Gk6QGhh'' @
     ''YLDxNGsyQjGR7z5AGibvYhNLU0JA4RbmxYWHw4g3wBrPA1jm9hGZ8y5Y8R97d0Hl'' @
     ''VpyreEMjRKNDMEEwHQYDVR0OBBYEFA5EHgir+kOnflzQ/NMwMXgmEZQyMA8GA1Ud'' @
     ''EwEB/wQFMAMBAf8wDwYDVR0PAQH/BAUDAwcGADAKBggqhkjOPQQDAwNoADBlAjEA'' @
     ''kKF/6WReNytwSrJ8JSTToc7xWS5SvAa23Fnla4mywZUxUFS4VSxCMQTjQCknO3iZ'' @
     ''AjBgxXyXYqn0d7vz7S6oAY5TdaD5YFT5MD2c1MAAp8pxQSwdPa9k0ZSoGIEn31Z0'' @
     ''GxU='' @
     ''-----END CERTIFICATE-----''"

text \<open>
  The certificate of the library: its text, its identifier, its serial number as text, and what the call for the serial number
  answers. The last call of \<^verbatim>\<open>printf\<close> has five conversions and four arguments.
\<close>

record 'c cert_lib =
  read_certificate :: "string \<Rightarrow> 'c option"
  cert_text :: "'c \<Rightarrow> string"
  cert_uid :: "'c \<Rightarrow> string"
  cert_number :: "'c \<Rightarrow> string"
  get_serial :: "'c \<Rightarrow> int \<times> nat \<times> u8 list"
  type_name :: string

definition certificate_call :: "string \<Rightarrow> string \<Rightarrow> string \<Rightarrow> string \<Rightarrow> string \<times> arg list" where
  "certificate_call cert uid sn number =
     (''Certificate:'' @ [LF] @ ''%s'' @ [LF, LF] @ ''UID: %s'' @ [LF] @ ''SN:  %s %s true=%s'' @ [LF],
      [Str_arg cert, Str_arg uid, Str_arg sn, Str_arg number])"

definition crypto_main :: "'c cert_lib \<Rightarrow> u8 list \<Rightarrow> (string, int) run" where
  "crypto_main lib old =
     (case read_certificate lib cert_pem of
        None \<Rightarrow> ([], Terminates)
      | Some c \<Rightarrow>
          then_run (print_lines [''size=64 name='' @ type_name lib @ [LF]]) (\<lambda>_.
          then_run (print_lines [dec_of_nat (fst (snd (get_serial lib c))) @ [LF]]) (\<lambda>_.
            case sn_line old (get_serial lib c) of
              None \<Rightarrow> ([], Undefined_behaviour)
            | Some sn \<Rightarrow>
                (let call = certificate_call (cert_text lib c) (cert_uid lib c) sn (cert_number lib c) in
                 case printf (fst call) (snd call) of
                   None \<Rightarrow> ([], Undefined_behaviour)
                 | Some t \<Rightarrow> ([t], Returns 0)))))"

subsection \<open>Registering a name (cpp/jami/namedir.cpp)\<close>

text \<open>The signals of the library that the program has handlers for, with the values they carry.\<close>

datatype ring_signal =
    Name_registration_ended string int string
  | Registered_name_found string int string string

datatype ring_call =
    Printf_call "string \<times> arg list"
  | Init_ring
  | Register_handlers
  | Start_ring
  | Lookup_address string string
  | Register_name string string string
  | Lookup_name string string

text \<open>
  The arguments are numbered as in \<^verbatim>\<open>argv\<close>; \<open>argv[argc]\<close> is a null pointer, and making a
  \<^verbatim>\<open>std::string\<close> of it is undefined. After the calls the program sleeps for ever.
\<close>

definition namedir_main :: "bool \<Rightarrow> bool \<Rightarrow> bool \<Rightarrow> string list \<Rightarrow> (ring_call, int) run" where
  "namedir_main init_ok start_ok registered argv =
     (if length argv < 4 then
        ([Printf_call (''./run <address> <account> <password> <username>'' @ [LF], [])], Returns 1)
      else if \<not> init_ok then ([Init_ring], Returns 1)
      else if \<not> start_ok then ([Init_ring, Register_handlers, Start_ring], Returns 1)
      else
        (let calls = [Init_ring, Register_handlers, Start_ring, Lookup_address ''ns.jami.net'' (argv ! 1)]
         in if length argv = 4 then (calls, Undefined_behaviour)
            else (calls @ [Register_name (argv ! 2) (argv ! 3) (argv ! 4),
                           Printf_call (''RegisterName: %s'', [Str_arg (if registered then ''OK'' else ''FAIL'')]),
                           Lookup_name ''ns.jami.net'' (argv ! 4)], Hangs)))"

text \<open>
  The handlers run on threads of the library while the program sleeps. The texts come as \<^verbatim>\<open>c_str()\<close>, the state as the
  number of a \<^verbatim>\<open>RegistrationResponse\<close> or a \<^verbatim>\<open>Response\<close>.
\<close>

definition closing_rule :: "string \<times> arg list" where
  "closing_rule = (replicate 53 (CHR ''='') @ [LF], [])"

fun ring_handler :: "ring_signal \<Rightarrow> (string \<times> arg list) list" where
  "ring_handler (Name_registration_ended account_id state name) =
     [(LF # ''============== name register ======================'' @ [LF], []),
      (''account_id: %s state: %i name: %s'' @ [LF], [Str_arg account_id, Int_arg state, Str_arg name]),
      closing_rule]"
| "ring_handler (Registered_name_found account_id state address name) =
     [(LF # ''================== lookup ended ==================='' @ [LF], []),
      (''account_id: %s state: %i name: %s'' @ LF # ''address: %s'' @ [LF],
       [Str_arg account_id, Int_arg state, Str_arg name, Str_arg address]),
      closing_rule]"

subsection \<open>Redirecting standard output (cpp/stdout\_redirect.cpp)\<close>

datatype sink = Terminal | Str_buf

record streams =
  terminal :: string
  str_buf :: string
  cout_sink :: sink
  cout_buf :: "sink option"

definition cout_put :: "string \<Rightarrow> streams \<Rightarrow> streams" where
  "cout_put t s =
     (case cout_sink s of
        Terminal \<Rightarrow> s\<lparr>terminal := terminal s @ t\<rparr>
      | Str_buf \<Rightarrow> s\<lparr>str_buf := str_buf s @ t\<rparr>)"

definition printf_put :: "string \<Rightarrow> streams \<Rightarrow> streams" where
  "printf_put t s = s\<lparr>terminal := terminal s @ t\<rparr>"

definition set_cout_redirect :: "streams \<Rightarrow> streams" where
  "set_cout_redirect s = s\<lparr>cout_buf := Some (cout_sink s), cout_sink := Str_buf\<rparr>"

definition redirect_main :: "streams \<Rightarrow> streams" where
  "redirect_main s =
     (let s1 = set_cout_redirect s;
          s2 = cout_put (''Welcome into Main function!'' @ [LF]) s1
      in if str_buf s2 \<noteq> []
         then (printf_put (''[cout rdbuf intercept] '' @ c_str (str_buf s2)) s2)\<lparr>str_buf := []\<rparr>
         else s2)"

subsection \<open>Listing files (cpp/list\_files.cpp)\<close>

text \<open>
  A directory entry: whether it is a directory, its file name as \<^verbatim>\<open>operator<<\<close> prints it, and its stem.
\<close>

definition list_files :: "(bool \<times> string \<times> string) list \<Rightarrow> string list" where
  "list_files entries =
     concat (map (\<lambda>(is_dir, filename, stem). if \<not> is_dir then [filename, stem] else []) entries)"

subsection \<open>Printing a graph (cpp/graph/enum\_map.cpp)\<close>

text \<open>A graph with the vertices below \<open>n\<close>; \<open>adj v\<close> are the neighbours in the order the library lists them.\<close>

definition gprint_vertex :: "(nat \<Rightarrow> nat list) \<Rightarrow> nat \<Rightarrow> string" where
  "gprint_vertex adj v =
     ''V='' @ dec_of_nat v @ '' EDGES='' @
     concat (map (\<lambda>w. ''{'' @ dec_of_nat v @ '','' @ dec_of_nat w @ ''} '') (adj v)) @ [LF]"

definition gprint :: "nat \<Rightarrow> (nat \<Rightarrow> nat list) \<Rightarrow> string" where
  "gprint n adj = concat (map (gprint_vertex adj) [0..<n])"

subsection \<open>Laws\<close>

lemma serial_hex_defined: "serial_hex len buffer = None \<longleftrightarrow> length buffer < len"
  by (simp add: serial_hex_def)

lemma redirect_main_output:
  "cout_sink s = Terminal \<Longrightarrow> str_buf s = [] \<Longrightarrow>
     redirect_main s =
       s\<lparr>terminal := terminal s @ ''[cout rdbuf intercept] Welcome into Main function!'' @ [LF],
         cout_sink := Str_buf, cout_buf := Some Terminal\<rparr>"
  by (simp add: redirect_main_def set_cout_redirect_def cout_put_def printf_put_def Let_def)

text \<open>Nothing that is written to \<^verbatim>\<open>cout\<close> after the program's redirection reaches the terminal.\<close>

lemma redirect_is_final:
  "cout_sink s = Terminal \<Longrightarrow> str_buf s = [] \<Longrightarrow>
     terminal (cout_put t (redirect_main s)) = terminal (redirect_main s)"
  by (simp add: redirect_main_output cout_put_def)

lemma length_list_files:
  "length (list_files es) = 2 * length (filter (\<lambda>(is_dir, f, t). \<not> is_dir) es)"
  by (induction es) (auto simp: list_files_def)

section \<open>Properties\<close>

text \<open>
  The serial number becomes two digits for each of its bytes, and reads back, when it
  fits the buffer of 64 bytes; a size above 64, as the library reports for a serial
  number that does not fit, makes the loop read past the buffer.
\<close>

theorem serial_number_printed:
  "length serial \<le> 64 \<Longrightarrow> length old = 64 \<Longrightarrow>
     (\<exists>t. sn_line old (ret, length serial, serial) = Some t \<and> length t = 2 * length serial \<and>
        decode_all 2 byte_of_hex (length serial) t = Some serial) \<and>
     sn_line old (ret, 65 + n, serial) = None"
  by (simp add: sn_line_def serial_hex_def hex.length_concat_enc hex.decode_all_enc)

theorem serial_number_printed_witness:
  "(\<exists>t. sn_line (replicate 64 0) (0, length [72 :: u8, 11], [72, 11]) = Some t \<and>
      length t = 2 * length [72 :: u8, 11] \<and>
      decode_all 2 byte_of_hex (length [72 :: u8, 11]) t = Some [72, 11]) \<and>
     sn_line (replicate 64 0) (0, 65 + 3, [72, 11]) = None"
  by (rule serial_number_printed) simp_all

text \<open>
  \<open>crypto.cpp\<close> has no run that ends normally: if the library accepts the built-in certificate, both sizes are printed and
  then the behaviour is undefined, in the loop over the serial number or else in the final \<^verbatim>\<open>printf\<close>, which has one argument less than
  conversions, whatever the certificate holds.
\<close>

theorem crypto_main_undefined:
  "snd (crypto_main lib old) =
     (if read_certificate lib cert_pem = None then Terminates else Undefined_behaviour) \<and>
   printf (fst (certificate_call a b c d)) (snd (certificate_call a b c d)) = None \<and>
   printf (fst (certificate_call a b c d)) (snd (certificate_call a b c d) @ [Str_arg e]) \<noteq> None"
proof -
  have none: "printf (fst (certificate_call a b c d)) (snd (certificate_call a b c d)) = None" for a b c d
    by (simp add: certificate_call_def printf_def)
  have "printf (fst (certificate_call a b c d)) (snd (certificate_call a b c d) @ [Str_arg e]) \<noteq> None"
    by (simp add: certificate_call_def printf_def)
  then show ?thesis using none
    by (auto simp: crypto_main_def split: option.splits)
qed

text \<open>
  The guard of \<open>namedir.cpp\<close> lets four arguments pass although five are used: with exactly four
  a started program looks up the address and then runs into undefined behaviour before any
  name is registered; with five or more it registers and looks up the given name and does not
  return.
\<close>

theorem namedir_argument_guard:
  "(snd (namedir_main True True r argv) = Undefined_behaviour) = (length argv = 4) \<and>
   (snd (namedir_main True True r argv) = Hangs) = (5 \<le> length argv) \<and>
   (Register_name a p u \<in> set (fst (namedir_main i s r argv))) =
     (i \<and> s \<and> 5 \<le> length argv \<and> [a, p, u] = take 3 (drop 2 argv))"
proof -
  have "take 3 (drop 2 argv) = [argv ! 2, argv ! 3, argv ! 4]" if "5 \<le> length argv"
    using that by (simp add: numeral_3_eq_3 numeral_2_eq_2 take_Suc_conv_app_nth)
      (simp add: numeral_eq_Suc)
  then show ?thesis by (auto simp: namedir_main_def Let_def)
qed

end
