(* ===== verification/Printf_Calls.thy ===== *)
theory Printf_Calls
  imports Rest_Client Dht_Async Async_Connection Small_Programs
begin

section \<open>The typing of the printf calls\<close>

text \<open>
  The compiler does not check the arguments of \<^verbatim>\<open>printf\<close>. The type system of theory Printf is sound: a
  well-typed call has a result. Here it is applied to every call of \<^verbatim>\<open>printf\<close> under \<^verbatim>\<open>cpp/\<close>, whether or not the program around it
  is modelled call by call: a table per file gives, in source order, the line, the format and the arguments of each
  call. What a call prints at run time is data: \<open>text_at d l k\<close> is the \<open>k\<close>-th text of the call at line \<open>l\<close>, \<open>number_at\<close> its
  signed and \<open>count_at\<close> its unsigned number, \<open>pointer_at\<close> a text that the library may leave out (a null pointer). Calls in
  comments are left out.
\<close>

definition typed_call :: "string \<times> arg list \<Rightarrow> bool" where
  "typed_call c = well_typed (fst c) (map type_of_arg (snd c))"

definition defined_call :: "string \<times> arg list \<Rightarrow> bool" where
  "defined_call c = (printf (fst c) (snd c) \<noteq> None)"

lemma typed_is_defined: "typed_call c \<Longrightarrow> defined_call c"
  using printf_sound [of "fst c" "snd c"] by (auto simp: typed_call_def defined_call_def)

record call_data =
  text_at :: "nat \<Rightarrow> nat \<Rightarrow> string"
  number_at :: "nat \<Rightarrow> int"
  count_at :: "nat \<Rightarrow> nat"
  pointer_at :: "nat \<Rightarrow> string option"

fun text_arg :: "string option \<Rightarrow> arg" where
  "text_arg (Some s) = Str_arg s"
| "text_arg None = Pointer_arg"

subsection \<open>The calls of each file\<close>

definition blocking_calls :: "call_data \<Rightarrow> (nat \<times> string \<times> arg list) list" where
  "blocking_calls d =
    [(18, ''%s'', [Str_arg (text_at d 18 0)])]"

definition async_server_calls :: "call_data \<Rightarrow> (nat \<times> string \<times> arg list) list" where
  "async_server_calls d =
    [(18, ''%s'', [Str_arg (text_at d 18 0)])]"

definition async_client_calls :: "call_data \<Rightarrow> (nat \<times> string \<times> arg list) list" where
  "async_client_calls d =
    [(21, ''%s'', [Str_arg (text_at d 21 0)]),
     (59, ''write: %s'' @ [LF], [Str_arg (text_at d 59 0)]),
     (77, ''read: %s'' @ [LF], [Str_arg (text_at d 77 0)]),
     (132, ''sending:'' @ [LF] @ ''%s'' @ [LF], [Str_arg (text_at d 132 0)]),
     (136, ''error: connection closed'' @ [LF], []),
     (139, ''resolving error: closing connection'' @ [LF], []),
     (170, ''finishing..'' @ [LF], [])]"

definition client2_calls :: "call_data \<Rightarrow> (nat \<times> string \<times> arg list) list" where
  "client2_calls d =
    [(80, ''[connection:%i] created'' @ [LF], [Int_arg (number_at d 80)]),
     (89, ''[connection:%i] error resolving'' @ [LF], [Int_arg (number_at d 89)]),
     (94, ''[connection:%i] resolved host=%s service=%s'' @ [LF],
      [Int_arg (number_at d 94), Str_arg (text_at d 94 0), Str_arg (text_at d 94 1)]),
     (100, ''[connection:%i] error closed connection'' @ [LF], [Int_arg (number_at d 100)]),
     (104, ''[connection:%i] request write'' @ [LF], [Int_arg (number_at d 104)]),
     (107, ''[connection:%i] error: %s'' @ [LF], [Int_arg (number_at d 107), Str_arg (text_at d 107 0)]),
     (111, ''[connection:%i] response read'' @ [LF], [Int_arg (number_at d 111)]),
     (114, ''[connection:%i] error: %s'' @ [LF], [Int_arg (number_at d 114), Str_arg (text_at d 114 0)]),
     (145, ''=========== 1 =========='' @ [LF] @ ''%s'' @ [LF], [Str_arg (text_at d 145 0)]),
     (148, ''=========== 2 =========='' @ [LF] @ ''%s'' @ [LF], [Str_arg (text_at d 148 0)]),
     (159, ''[main] ! exception: %s'' @ [LF], [Str_arg (text_at d 159 0)]),
     (162, ''[main] finishing'' @ [LF], [])]"

definition rest_client_calls :: "call_data \<Rightarrow> (nat \<times> string \<times> arg list) list" where
  "rest_client_calls d =
    [(19, ''addr=%s type=%i'' @ [LF], [Str_arg (text_at d 19 0), Int_arg (number_at d 19)]),
     (128, text_at d 128 0, []),
     (138, ''on url cb'' @ [LF], []),
     (142, ''on header field cb'' @ [LF], []),
     (146, ''on header value cb'' @ [LF], []),
     (150, ''on headers complete cb'' @ [LF], []),
     (154, ''on body cb  message={%s} '', [Str_arg (text_at d 154 0)]),
     (157, ''flag=%i'' @ [LF], [Int_arg (number_at d 157)]),
     (161, ''on message complete cb'' @ [LF], []),
     (165, ''on status cb code=%i message=%s'' @ [LF], [Int_arg (number_at d 165), Str_arg (text_at d 165 0)]),
     (179, ''finishing...'' @ [LF], [])]"

definition custom_client_calls :: "call_data \<Rightarrow> (nat \<times> string \<times> arg list) list" where
  "custom_client_calls d =
    [(52, debug_call),
     (167, text_at d 167 0, [])]"

definition by_parts_calls :: "call_data \<Rightarrow> (nat \<times> string \<times> arg list) list" where
  "by_parts_calls d =
    [(79, ''connection_id: %lu'' @ [LF], [Ulong_arg (count_at d 79)])]"

definition dyad_calls :: "call_data \<Rightarrow> (nat \<times> string \<times> arg list) list" where
  "dyad_calls d =
    [(28, [LF] @ ''onAccept: %s'', [text_arg (pointer_at d 28)]),
     (41, ''http://localhost:%d'' @ [LF], [Int_arg (number_at d 41)]),
     (46, [LF] @ ''onData: %s'', [Str_arg (text_at d 46 0)]),
     (53, [LF] @ ''onLine: %s'', [Str_arg (text_at d 53 0)]),
     (58, ''%s %s'' @ [LF], [Str_arg (text_at d 58 0), Str_arg (text_at d 58 1)]),
     (64, ''here: %s %s %i'' @ [LF], [Pointer_arg, Str_arg (text_at d 64 0), Ulong_arg (count_at d 64)]),
     (71, ''server error: %s'' @ [LF], [Str_arg (text_at d 71 0)])]"

definition proxy_calls :: "call_data \<Rightarrow> (nat \<times> string \<times> arg list) list" where
  "proxy_calls d =
    [(16, ''Running on restinio on %i threads'' @ [LF], [Uint_arg (count_at d 16)]),
     (105, ''Connection Id: %lu'' @ [LF], [Ulong_arg (count_at d 105)])]"

definition dhtclient_calls :: "call_data \<Rightarrow> (nat \<times> string \<times> arg list) list" where
  "dhtclient_calls d =
    [(20, ''[listen::cb] values = '', []),
     (32, ''[put::donecb] ok=%i'' @ [LF], [Int_arg (number_at d 32)]),
     (41, ''[get::cb] value=%s'' @ [LF], [Str_arg (text_at d 41 0)]),
     (44, ''[get::donecb] ok=%i'' @ [LF], [Int_arg (number_at d 44)])]"

definition dhtclient_async_calls :: "call_data \<Rightarrow> (nat \<times> string \<times> arg list) list" where
  "dhtclient_async_calls d =
    [(12, ''./run <hash-key> <proxy-addr> <client-key>'' @ [LF], [])]"

definition future_get_calls :: "call_data \<Rightarrow> (nat \<times> string \<times> arg list) list" where
  "future_get_calls d =
    [(8, ''./run <key> <addr>'' @ [LF], []),
     (20, ''=============== in future get ================='' @ [LF], []),
     (24, ''=============== in future done (%s) ================='' @ [LF], [Str_arg (text_at d 24 0)])]"

definition crypto_calls :: "call_data \<Rightarrow> (nat \<times> string \<times> arg list) list" where
  "crypto_calls d =
    [(39, certificate_call (text_at d 39 0) (text_at d 39 1) (text_at d 39 2) (text_at d 39 3))]"

definition http_calls :: "call_data \<Rightarrow> (nat \<times> string \<times> arg list) list" where
  "http_calls d =
    [(12, ''./run <url> <body>'' @ [LF], [])]"

definition two_way_tls_calls :: "call_data \<Rightarrow> (nat \<times> string \<times> arg list) list" where
  "two_way_tls_calls d =
    [(31, ''./binary client.key client.crt ca.pem'' @ [LF], [])]"

definition namedir_calls :: "call_data \<Rightarrow> (nat \<times> string \<times> arg list) list" where
  "namedir_calls d =
    [(25, ''./run <address> <account> <password> <username>'' @ [LF], []),
     (44, [LF] @ ''============== name register ======================'' @ [LF], []),
     (45, ''account_id: %s state: %i name: %s'' @ [LF],
      [Str_arg (text_at d 45 0), Int_arg (number_at d 45), Str_arg (text_at d 45 1)]),
     (48, closing_rule),
     (53, [LF] @ ''================== lookup ended ==================='' @ [LF], []),
     (54, ''account_id: %s state: %i name: %s'' @ [LF] @ ''address: %s'' @ [LF],
      [Str_arg (text_at d 54 0), Int_arg (number_at d 54), Str_arg (text_at d 54 1), Str_arg (text_at d 54 2)]),
     (57, closing_rule),
     (75, ''RegisterName: %s'', [Str_arg (text_at d 75 0)])]"

definition redirect_calls :: "call_data \<Rightarrow> (nat \<times> string \<times> arg list) list" where
  "redirect_calls d =
    [(35, ''[cout rdbuf intercept] %s'', [Str_arg (text_at d 35 0)])]"

definition ocsp_calls :: "call_data \<Rightarrow> (nat \<times> string \<times> arg list) list" where
  "ocsp_calls d =
    [(27, ''Cannot open file: %s'' @ [LF], [Str_arg (text_at d 27 0)]),
     (32, ''Cannot import certificate in %s: %s'' @ [LF], [Str_arg (text_at d 32 0), Str_arg (text_at d 32 1)]),
     (35, ''Loaded %d certificates.'' @ [LF], [Int_arg (number_at d 35)]),
     (46, ''ocsp_req_init: %s'', [Str_arg (text_at d 46 0)]),
     (51, ''ocsp_req_add_cert: %s'', [Str_arg (text_at d 51 0)]),
     (58, ''ocsp_req_set_nonce: %s'', [Str_arg (text_at d 58 0)]),
     (65, ''ocsp_req_export: %s'', [Str_arg (text_at d 65 0)]),
     (91, ''Received empty response'' @ [LF], []),
     (96, ''ocsp_resp_init: %s'' @ [LF], [Str_arg (text_at d 96 0)]),
     (101, ''ocsp_resp_import: %s'' @ [LF], [Str_arg (text_at d 101 0)]),
     (107, ''ocsp_resp_print: %s'' @ [LF], [Str_arg (text_at d 107 0)]),
     (110, ''%s'' @ [LF], [Str_arg (text_at d 110 0)]),
     (114, ''ocsp_resp_check_crt: %s'' @ [LF], [Str_arg (text_at d 114 0)]),
     (120, [LF, LF] @ ''Nonce sent: %s'' @ [LF], [Str_arg (text_at d 120 0)]),
     (121, ''Nonce recv: %s'' @ [LF, LF], [Str_arg (text_at d 121 0)]),
     (129, ''Verifying OCSP Response: '', []),
     (131, ''Verification success!'' @ [LF], []),
     (133, ''Verification error!'' @ [LF], []),
     (135, ''Signer cert not found'' @ [LF], []),
     (137, ''Signer cert keyusage error'' @ [LF], []),
     (139, ''Signer cert is not trusted'' @ [LF], []),
     (141, ''Insecure algorithm'' @ [LF], []),
     (143, ''Signature failure'' @ [LF], []),
     (145, ''Signer cert not yet activated'' @ [LF], []),
     (147, ''Signer cert expired'' @ [LF], []),
     (160, ''./binary <cert_file> <issuer_file> <signer_file>'' @ [LF], []),
     (167, ''cert: %s issuer: %s signer: %s'' @ [LF],
      [Str_arg (text_at d 167 0), Str_arg (text_at d 167 1), Str_arg (text_at d 167 2)]),
     (173, ''gnutls_global_init: %s'' @ [LF], [Str_arg (text_at d 173 0)]),
     (184, ''Certificate: %s'' @ [LF] @ ''Issuer: %s'' @ [LF] @ ''Signer: %s'' @ [LF],
      [Str_arg (text_at d 184 0), Str_arg (text_at d 184 1), Str_arg (text_at d 184 2)]),
     (197, ''No URI was found in the certificate.'' @ [LF], []),
     (201, ''error: %s'' @ [LF], [Str_arg (text_at d 201 0)]),
     (210, ''CA issuers URI: %s'' @ [LF], [Str_arg (text_at d 210 0)]),
     (217, ''gnutls_rnd: %s'' @ [LF], [Str_arg (text_at d 217 0)]),
     (292, ''= verified: %i'' @ [LF], [Int_arg (number_at d 292)]),
     (294, ''= success'' @ [LF], [])]"

definition valid_ca_calls :: "call_data \<Rightarrow> (nat \<times> string \<times> arg list) list" where
  "valid_ca_calls d =
    [(23, ''./binary <host> <port> <ca.crt> <ca_name>'' @ [LF], []),
     (30, ''host: %s  port: %u  ca: %s ca_name: %s'' @ [LF],
      [Str_arg (text_at d 30 0), Int_arg (number_at d 30), Str_arg (text_at d 30 1), Str_arg (text_at d 30 2)]),
     (36, ''error: socket creation error'' @ [LF], []),
     (43, ''error: invalid address not supported'' @ [LF], []),
     (71, ''error: connection failed'' @ [LF], []),
     (90, ''cert verify output: %s'' @ [LF], [Str_arg (text_at d 90 0)]),
     (93, ''error: handshake failed: %s'' @ [LF], [Str_arg (text_at d 93 0)]),
     (98, ''gnutls session info: %s'' @ [LF], [text_arg (pointer_at d 98)]),
     (101, ''tls false start: %s'' @ [LF], [Str_arg (text_at d 101 0)]),
     (108, ''todo print x509 info'' @ [LF], []),
     (112, ''Transport authentication failure'' @ [LF], []),
     (114, ''Unsupported credential type %d.'' @ [LF], [Int_arg (number_at d 114)]),
     (123, ''send failed: %s'' @ [LF], [Str_arg (text_at d 123 0)]),
     (128, ''recv failed: %s'' @ [LF], [Str_arg (text_at d 128 0)]),
     (132, ''< received %d bytes:'' @ [LF], [Int_arg (number_at d 132)]),
     (146, ''= success'' @ [LF], [])]"

definition source_calls :: "call_data \<Rightarrow> (string \<times> (nat \<times> string \<times> arg list) list) list" where
  "source_calls d =
    [(''async/nonblocking.cpp'', blocking_calls d),
     (''async/nonblocking/server.cpp'', async_server_calls d),
     (''async/nonblocking/client.cpp'', async_client_calls d),
     (''async/nonblocking/client2.cpp'', client2_calls d),
     (''restinio/client.cpp'', rest_client_calls d),
     (''restinio/client_custom_http_methods.cpp'', custom_client_calls d),
     (''restinio/server_reply_by_parts.cpp'', by_parts_calls d),
     (''server/httpserver_dyad.cpp'', dyad_calls d),
     (''opendht/dhtproxyserver/proxy_restinio.cpp'', proxy_calls d),
     (''opendht/dhtclient.cpp'', dhtclient_calls d),
     (''opendht/dhtclient_async.cpp'', dhtclient_async_calls d),
     (''opendht/future-get.cpp'', future_get_calls d),
     (''opendht/crypto.cpp'', crypto_calls d),
     (''opendht/http.cpp'', http_calls d),
     (''opendht/https_2waystls.cpp'', two_way_tls_calls d),
     (''jami/namedir.cpp'', namedir_calls d),
     (''stdout_redirect.cpp'', redirect_calls d),
     (''crypto/gnutls/ocsp.cpp'', ocsp_calls d),
     (''crypto/gnutls/valid_ca.cpp'', valid_ca_calls d)]"

text \<open>The lines of a table whose calls are ill typed, and those whose calls are undefined.\<close>

definition ill_typed :: "(nat \<times> string \<times> arg list) list \<Rightarrow> nat list" where
  "ill_typed cs = map fst (filter (\<lambda>(l, c). \<not> typed_call c) cs)"

definition undefined_at :: "(nat \<times> string \<times> arg list) list \<Rightarrow> nat list" where
  "undefined_at cs = map fst (filter (\<lambda>(l, c). \<not> defined_call c) cs)"

text \<open>By soundness only the calls that are ill typed have to be run.\<close>

lemma verdict_Nil: "(ill_typed [], undefined_at []) = ([], [])"
  by (simp add: ill_typed_def undefined_at_def)

lemma verdict_Cons:
  "(ill_typed ((l, c) # cs), undefined_at ((l, c) # cs)) =
   (if typed_call c then (ill_typed cs, undefined_at cs)
    else (l # ill_typed cs, (if defined_call c then [] else [l]) @ undefined_at cs))"
  using typed_is_defined [of c] by (auto simp: ill_typed_def undefined_at_def)

definition verdict :: "(nat \<times> string \<times> arg list) list \<Rightarrow> nat list \<times> nat list" where
  "verdict cs = (ill_typed cs, undefined_at cs)"

lemma verdict_rec:
  "verdict [] = ([], [])"
  "verdict ((l, c) # cs) =
   (if typed_call c then verdict cs
    else (l # fst (verdict cs), (if defined_call c then [] else [l]) @ snd (verdict cs)))"
  using verdict_Nil verdict_Cons [of l c cs] by (simp_all add: verdict_def)

lemmas run_table = verdict_rec typed_call_def [of "(f, a)" for f a] well_typed_def fst_conv snd_conv

lemma typed_rule [simp]: "typed_call closing_rule"
  by (simp add: closing_rule_def typed_call_def well_typed_def eval_nat_numeral)

lemma async_clean:
  "verdict (blocking_calls d) = ([], [])"
  "verdict (async_server_calls d) = ([], [])"
  "verdict (async_client_calls d) = ([], [])"
  by (simp_all add: run_table blocking_calls_def async_server_calls_def async_client_calls_def)

lemma client2_calls_clean:
  "verdict (client2_calls d) = ([], [])"
  by (simp_all add: run_table client2_calls_def)

lemma dht_clean:
  "verdict (by_parts_calls d) = ([], [])"
  "verdict (dhtclient_calls d) = ([], [])"
  "verdict (dhtclient_async_calls d) = ([], [])"
  "verdict (future_get_calls d) = ([], [])"
  by (simp_all add: run_table by_parts_calls_def dhtclient_calls_def dhtclient_async_calls_def future_get_calls_def)

lemma usage_clean:
  "verdict (http_calls d) = ([], [])"
  "verdict (two_way_tls_calls d) = ([], [])"
  "verdict (redirect_calls d) = ([], [])"
  by (simp_all add: run_table http_calls_def two_way_tls_calls_def redirect_calls_def)

lemma namedir_calls_clean:
  "verdict (namedir_calls d) = ([], [])"
  by (simp_all add: run_table typed_rule namedir_calls_def)

lemma ocsp_calls_clean:
  "verdict (ocsp_calls d) = ([], [])"
  by (simp_all add: run_table ocsp_calls_def)

lemmas clean_tables = async_clean client2_calls_clean dht_clean usage_clean namedir_calls_clean ocsp_calls_clean

text \<open>Texts used as formats, with no argument: defined exactly if they ask for none.\<close>

definition if_asks :: "string \<Rightarrow> nat list \<Rightarrow> nat list" where
  "if_asks format ls = (if well_typed format [] then [] else ls)"

lemma data_format: "defined_call (f, []) = typed_call (f, [])"
  using printf_no_args typed_is_defined [of "(f, [])"] by (auto simp: defined_call_def typed_call_def)

lemma undefined_debug: "typed_call debug_call = False" "defined_call debug_call = False"
  by (simp_all add: debug_call_def typed_call_def well_typed_def defined_call_def printf_def)

lemma rest_client_table: "verdict (rest_client_calls d) = (if_asks (text_at d 128 0) [128], if_asks (text_at d 128 0) [128])"
  by (simp add: run_table rest_client_calls_def data_format if_asks_def)

lemma custom_client_table:
  "verdict (custom_client_calls d) = (52 # if_asks (text_at d 167 0) [167], 52 # if_asks (text_at d 167 0) [167])"
  by (simp add: run_table custom_client_calls_def data_format if_asks_def undefined_debug)

text \<open>The line of a call whose text the library leaves out.\<close>

definition no_text :: "call_data \<Rightarrow> nat \<Rightarrow> nat list" where
  "no_text d l = (if pointer_at d l = None then [l] else [])"

lemma dyad_table: "verdict (dyad_calls d) = (no_text d 28 @ [64], no_text d 28 @ [64])"
  by (cases "pointer_at d 28") (simp_all add: run_table dyad_calls_def no_text_def defined_call_def printf_def)

lemma proxy_table: "verdict (proxy_calls d) = ([16], if count_at d 16 < 2 ^ 31 then [] else [16])"
  by (simp add: run_table proxy_calls_def defined_call_def printf_def)

lemma crypto_table: "verdict (crypto_calls d) = ([39], [39])"
  by (simp add: run_table crypto_calls_def certificate_call_def defined_call_def printf_def)

lemma valid_ca_table:
  "verdict (valid_ca_calls d) =
   (30 # no_text d 98, (if 0 \<le> number_at d 30 then [] else [30]) @ no_text d 98)"
  by (cases "pointer_at d 98") (simp_all add: run_table valid_ca_calls_def no_text_def defined_call_def printf_def)

subsection \<open>The tables and the models\<close>

text \<open>The calls that the models of the programs make are calls of the tables.\<close>

definition listed :: "string \<times> arg list \<Rightarrow> (call_data \<Rightarrow> (nat \<times> string \<times> arg list) list) \<Rightarrow> bool" where
  "listed c t = (\<exists>d. c \<in> snd ` set (t d))"

definition data_of :: "(nat \<Rightarrow> string) \<Rightarrow> int \<Rightarrow> call_data" where
  "data_of t i = \<lparr>text_at = (\<lambda>l. t), number_at = (\<lambda>l. i), count_at = (\<lambda>l. 0), pointer_at = (\<lambda>l. None)\<rparr>"

lemma listed_line: "listed (line_call message da l) client2_calls"
proof -
  define d where "d = data_of (\<lambda>k. case l of Failed i ec \<Rightarrow> message ec | _ \<Rightarrow> if k = 0 then fst da else snd da)
    (case l of Created i \<Rightarrow> uint i | Error_resolving i \<Rightarrow> uint i | Resolved_host i \<Rightarrow> uint i
       | Closed_connection i \<Rightarrow> uint i | Request_write i \<Rightarrow> uint i | Failed i ec \<Rightarrow> uint i | Response_read i \<Rightarrow> uint i)"
  have "line_call message da l \<in> snd ` set (client2_calls d)"
    by (cases l) (simp_all add: d_def data_of_def client2_calls_def)
  then show ?thesis unfolding listed_def ..
qed

lemma listed_response: "n \<in> {1, 2} \<Longrightarrow> listed (print_response n resp) client2_calls"
proof -
  assume n: "n \<in> {1, 2}"
  have "dec_of_nat 1 = ''1''" "dec_of_nat 2 = ''2''" by (simp_all add: dec_of_nat.simps)
  then have "print_response n resp \<in> snd ` set (client2_calls (data_of (\<lambda>k. resp) 0))"
    using n by (auto simp: print_response_def data_of_def client2_calls_def)
  then show ?thesis unfolding listed_def ..
qed

lemma listed_callback: "list_all (\<lambda>c. listed c rest_client_calls) (callback_calls flag ev)"
proof -
  define d where "d = data_of (\<lambda>k. case ev of On_status code s \<Rightarrow> s | On_body s \<Rightarrow> s | _ \<Rightarrow> [])
    (case ev of On_status code s \<Rightarrow> int code | _ \<Rightarrow> flag)"
  have "list_all (\<lambda>c. c \<in> snd ` set (rest_client_calls d)) (callback_calls flag ev)"
    by (cases ev) (simp_all add: d_def data_of_def rest_client_calls_def)
  then show ?thesis by (meson list_all_iff listed_def)
qed

lemma listed_handler: "list_all (\<lambda>c. listed c namedir_calls) (ring_handler sg)"
proof -
  define d where "d = data_of (\<lambda>k. case sg of
      Name_registration_ended account_id state name \<Rightarrow> if k = 0 then account_id else name
    | Registered_name_found account_id state address name \<Rightarrow>
        if k = 0 then account_id else if k = 1 then name else address)
    (case sg of Name_registration_ended account_id state name \<Rightarrow> state
       | Registered_name_found account_id state address name \<Rightarrow> state)"
  have "list_all (\<lambda>c. c \<in> snd ` set (namedir_calls d)) (ring_handler sg)"
    by (cases sg) (simp_all add: d_def data_of_def namedir_calls_def)
  then show ?thesis by (meson list_all_iff listed_def)
qed

text \<open>The listener of the asynchronous client logs with a format that is data.\<close>

lemma typed_ok [simp]: "type_of_arg (ok_arg ok) = T_int"
  by (simp add: ok_arg_def)

lemma dec_plain: "CHR ''%'' \<notin> set (dec_of_nat n)" "NUL \<notin> set (dec_of_nat n)"
  using dec_of_nat_digits digit_neq(1) by (auto simp: is_digit_def dest!: dec_of_nat_digits)

lemma typed_logs:
  "typed_call (log_call cb) = (case cb of
     Listen_cb vs x \<Rightarrow> well_typed (c_str (values_text ''[listen::cb] values = '' vs)) []
   | _ \<Rightarrow> True)"
  using well_typed_text [of "''[put'' @ dec_of_nat n" f ts for n f ts] dec_plain
  by (cases cb) (simp_all add: typed_call_def, simp_all add: well_typed_def)

lemma log_defined: "defined_call (log_call cb) = typed_call (log_call cb)"
  using typed_is_defined [of "log_call cb"]
  by (cases cb) (simp_all add: data_format, simp_all add: typed_logs [of "Get_value v" for v, simplified]
    typed_logs [of "Get_done v" for v, simplified] typed_logs [of "Put_done v w" for v w, simplified])

section \<open>Properties\<close>

text \<open>
  C16. The calls of \<^verbatim>\<open>printf\<close> in every file under \<^verbatim>\<open>cpp/\<close> that has one, for every data they may print: the lines of the calls
  that are ill typed, then of those that are undefined; all others are well typed and, by soundness, defined. The two
  requests that are used as a format (\<^verbatim>\<open>client.cpp\<close> line 128, \<^verbatim>\<open>client_custom_http_methods.cpp\<close> line 167) are defined exactly if they ask for
  no argument. Line 52 of the latter passes an object, \<^verbatim>\<open>crypto.cpp\<close> an argument too few, \<^verbatim>\<open>httpserver_dyad.cpp\<close> line 64 a
  pointer for a text and an unsigned long for an int: always undefined. Lines 28 of \<^verbatim>\<open>httpserver_dyad.cpp\<close> and 98 of \<^verbatim>\<open>valid_ca.cpp\<close> are undefined if the library
  gives no text; the wrong signs in \<^verbatim>\<open>proxy_restinio.cpp\<close> and in line 30 of \<^verbatim>\<open>valid_ca.cpp\<close> matter only for a number that the other
  type has not. The log calls of the asynchronous client are defined exactly if they are well typed.
\<close>

theorem printf_calls_typed:
  "map (\<lambda>(file, cs). (file, ill_typed cs, undefined_at cs)) (source_calls d) =
   [(''async/nonblocking.cpp'', [], []),
    (''async/nonblocking/server.cpp'', [], []),
    (''async/nonblocking/client.cpp'', [], []),
    (''async/nonblocking/client2.cpp'', [], []),
    (''restinio/client.cpp'', if_asks (text_at d 128 0) [128], if_asks (text_at d 128 0) [128]),
    (''restinio/client_custom_http_methods.cpp'', 52 # if_asks (text_at d 167 0) [167], 52 # if_asks (text_at d 167 0) [167]),
    (''restinio/server_reply_by_parts.cpp'', [], []),
    (''server/httpserver_dyad.cpp'', no_text d 28 @ [64], no_text d 28 @ [64]),
    (''opendht/dhtproxyserver/proxy_restinio.cpp'', [16], if count_at d 16 < 2 ^ 31 then [] else [16]),
    (''opendht/dhtclient.cpp'', [], []),
    (''opendht/dhtclient_async.cpp'', [], []),
    (''opendht/future-get.cpp'', [], []),
    (''opendht/crypto.cpp'', [39], [39]),
    (''opendht/http.cpp'', [], []),
    (''opendht/https_2waystls.cpp'', [], []),
    (''jami/namedir.cpp'', [], []),
    (''stdout_redirect.cpp'', [], []),
    (''crypto/gnutls/ocsp.cpp'', [], []),
    (''crypto/gnutls/valid_ca.cpp'', 30 # no_text d 98, (if 0 \<le> number_at d 30 then [] else [30]) @ no_text d 98)] \<and>
   defined_call (log_call cb) = typed_call (log_call cb)"
  by (simp add: source_calls_def clean_tables [unfolded verdict_def] rest_client_table [unfolded verdict_def] log_defined
      custom_client_table [unfolded verdict_def] dyad_table [unfolded verdict_def] proxy_table [unfolded verdict_def]
      crypto_table [unfolded verdict_def] valid_ca_table [unfolded verdict_def])

end
