(* ===== verification/Step_Machine.thy ===== *)
theory Step_Machine
  imports Prelude
begin

section \<open>Step relations\<close>

text \<open>
  The programs with threads of their own, and components that are connected with each other, are step relations:
  every interleaving is a sequence of steps. \<open>reaches step s t\<close> holds for the states \<open>t\<close> that can be reached from \<open>s\<close>.
  The locales state what such a machine has to provide, and prove the facts about its reachable states once.
\<close>

inductive reaches :: "('s \<Rightarrow> 's \<Rightarrow> bool) \<Rightarrow> 's \<Rightarrow> 's \<Rightarrow> bool" for step :: "'s \<Rightarrow> 's \<Rightarrow> bool" and s :: 's where
  at_start: "reaches step s s"
| one_more: "reaches step s t \<Longrightarrow> step t u \<Longrightarrow> reaches step s u"

lemma reaches_step: "step s t \<Longrightarrow> reaches step s t"
  by (rule reaches.one_more [OF reaches.at_start])

lemma reaches_trans: "reaches step s t \<Longrightarrow> reaches step t u \<Longrightarrow> reaches step s u"
  by (rotate_tac, induction rule: reaches.induct) (auto intro: reaches.one_more)

subsection \<open>A machine with an invariant\<close>

locale step_machine =
  fixes step :: "'s \<Rightarrow> 's \<Rightarrow> bool"
    and init :: 's
    and inv :: "'s \<Rightarrow> bool"
  assumes init_inv: "inv init"
    and step_inv: "inv s \<Longrightarrow> step s t \<Longrightarrow> inv t"
begin

lemma reach_inv: "reaches step init s \<Longrightarrow> inv s"
  by (induction rule: reaches.induct) (auto intro: init_inv step_inv)

lemma reach_stays:
  assumes "reaches step init s" and "P init" and "\<And>s t. inv s \<Longrightarrow> step s t \<Longrightarrow> P s \<Longrightarrow> P t"
  shows "P s"
  using assms(1) by (induction rule: reaches.induct) (auto intro: assms reach_inv)

end

subsection \<open>A machine that runs down\<close>

locale ending_machine = step_machine step init inv
  for step :: "'s \<Rightarrow> 's \<Rightarrow> bool" and init :: 's and inv :: "'s \<Rightarrow> bool" +
  fixes work :: "'s \<Rightarrow> nat"
  assumes step_work: "inv s \<Longrightarrow> step s t \<Longrightarrow> work t < work s"
begin

text \<open>From every reachable state a final one is reached.\<close>

lemma reach_final:
  "reaches step init s \<Longrightarrow> \<exists>t. reaches step s t \<and> reaches step init t \<and> (\<nexists>u. step t u)"
proof (induction "work s" arbitrary: s rule: less_induct)
  case less
  show ?case
  proof (cases "\<exists>u. step s u")
    case True
    then obtain u where u: "step s u" by blast
    have "reaches step s u" using u by (rule reaches_step)
    moreover have "work u < work s" using step_work [OF reach_inv u] less.prems by blast
    ultimately show ?thesis
      using less.hyps [of u] reaches.one_more [OF less.prems u] by (blast intro: reaches_trans)
  next
    case False
    then show ?thesis using less.prems reaches.at_start [of step s] by (intro exI [of _ s]) simp
  qed
qed

end

end
