(* ===== verification/Proxy_Mongoose.thy ===== *)
theory Proxy_Mongoose
  imports Cpp_Std Step_Machine
begin

section \<open>The DHT proxy on mongoose (cpp/opendht/dhtproxyserver/proxy\_cpr.cpp, proxy\_cpr.h)\<close>

text \<open>
  A second thread polls the server until it can take \<^verbatim>\<open>shutdown_mutex\<close>; the main thread waits for it to have set the port.
  The file does not compile (\<^verbatim>\<open>hello\<close> lacks its closing brace, a lock is named \<^verbatim>\<open>this->server_lock\<close>, \<^verbatim>\<open>mainloop\<close>
  lacks a semicolon, and names no object when it is handed to the thread); it is read as it is evidently meant.
  The two threads are a step relation. Only the calls that touch a lock, the condition variable or the server are
  steps.
\<close>

subsection \<open>The event handler\<close>

datatype mg_result = MG_TRUE | MG_FALSE

datatype mg_event = MG_REQUEST | Other_event nat

datatype mg_call =
    Send_status nat
  | Send_header string string
  | Send_data string

definition hello :: "mg_call list \<times> mg_result" where
  "hello =
     ([Send_status 200, Send_header ''content-type'' ''text/html'', Send_data ''Hello world!''], MG_TRUE)"

text \<open>\<^verbatim>\<open>options\<close> is not defined in the repository.\<close>

definition evHandler ::
  "(string \<Rightarrow> mg_call list \<times> mg_result) \<Rightarrow> string \<Rightarrow> mg_event \<Rightarrow> mg_call list \<times> mg_result" where
  "evHandler options uri ev =
     (case ev of
        MG_REQUEST \<Rightarrow>
          (if uri = ''/'' then options uri
           else if uri = ''/hello'' then hello
           else ([], MG_FALSE))
      | _ \<Rightarrow> ([], MG_FALSE))"

subsection \<open>The two threads\<close>

datatype owner = Main_thread | Server_thread

datatype main_at =
    Run_lock
  | Spawn
  | Wait_call
  | Blocked
  | Relock
  | Run_unlock
  | Destructor
  | Exited

datatype server_at =
    Not_started
  | Loop_lock
  | Set_option
  | Notify
  | Loop_unlock
  | Poll
  | Try_lock
  | Unlock_shutdown
  | Final_lock
  | Destroy_server
  | Final_notify
  | Final_unlock
  | Finished

record mg_state =
  main_pc :: main_at
  server_pc :: server_at
  server_mutex :: "owner option"
  shutdown_mutex :: "owner option"
  port_set :: bool
  server_alive :: bool
  answers :: "(mg_call list \<times> mg_result) list"
  undefined_behaviour :: bool

text \<open>The constructor locks \<^verbatim>\<open>shutdown_mutex\<close> on the main thread, and \<^verbatim>\<open>main\<close> calls \<^verbatim>\<open>run\<close>.\<close>

definition constructed :: mg_state where
  "constructed =
     \<lparr>main_pc = Run_lock, server_pc = Not_started, server_mutex = None, shutdown_mutex = Some Main_thread,
      port_set = False, server_alive = True, answers = [], undefined_behaviour = False\<rparr>"

definition notify_one :: "mg_state \<Rightarrow> mg_state" where
  "notify_one s = (if main_pc s = Blocked then s\<lparr>main_pc := Relock\<rparr> else s)"

text \<open>
  The end of \<^verbatim>\<open>main\<close> destroys the members; destroying a mutex that a thread owns is undefined.
\<close>

definition destroy_members :: "mg_state \<Rightarrow> mg_state" where
  "destroy_members s =
     (if server_mutex s \<noteq> None \<or> shutdown_mutex s \<noteq> None then s\<lparr>undefined_behaviour := True\<rparr>
      else s\<lparr>main_pc := Exited\<rparr>)"

inductive main_step :: "mg_state \<Rightarrow> mg_state \<Rightarrow> bool" where
  run_lock: "main_pc s = Run_lock \<Longrightarrow> server_mutex s = None \<Longrightarrow>
     main_step s (s\<lparr>server_mutex := Some Main_thread, main_pc := Spawn\<rparr>)"
| spawn: "main_pc s = Spawn \<Longrightarrow> main_step s (s\<lparr>server_pc := Loop_lock, main_pc := Wait_call\<rparr>)"
| wait: "main_pc s = Wait_call \<Longrightarrow> main_step s (s\<lparr>server_mutex := None, main_pc := Blocked\<rparr>)"
| spurious: "main_pc s = Blocked \<Longrightarrow> main_step s (s\<lparr>main_pc := Relock\<rparr>)"
| relock: "main_pc s = Relock \<Longrightarrow> server_mutex s = None \<Longrightarrow>
     main_step s (s\<lparr>server_mutex := Some Main_thread, main_pc := Run_unlock\<rparr>)"
| run_unlock: "main_pc s = Run_unlock \<Longrightarrow>
     main_step s (s\<lparr>server_mutex := None, main_pc := Destructor\<rparr>)"
| destructor: "main_pc s = Destructor \<Longrightarrow> main_step s (destroy_members s)"

text \<open>\<^verbatim>\<open>mg_poll_server\<close> calls the handler for the events \<open>evs\<close> it found.\<close>

inductive server_step ::
  "(string \<Rightarrow> mg_call list \<times> mg_result) \<Rightarrow> mg_state \<Rightarrow> mg_state \<Rightarrow> bool" for options where
  loop_lock: "server_pc s = Loop_lock \<Longrightarrow> server_mutex s = None \<Longrightarrow>
     server_step options s (s\<lparr>server_mutex := Some Server_thread, server_pc := Set_option\<rparr>)"
| set_option: "server_pc s = Set_option \<Longrightarrow>
     server_step options s (s\<lparr>port_set := True, server_pc := Notify\<rparr>)"
| notify: "server_pc s = Notify \<Longrightarrow>
     server_step options s ((notify_one s)\<lparr>server_pc := Loop_unlock\<rparr>)"
| loop_unlock: "server_pc s = Loop_unlock \<Longrightarrow>
     server_step options s (s\<lparr>server_mutex := None, server_pc := Poll\<rparr>)"
| poll: "server_pc s = Poll \<Longrightarrow>
     server_step options s
       (s\<lparr>answers := answers s @ map (\<lambda>(uri, ev). evHandler options uri ev) evs, server_pc := Try_lock\<rparr>)"
| try_fails: "server_pc s = Try_lock \<Longrightarrow> shutdown_mutex s \<noteq> None \<Longrightarrow>
     server_step options s (s\<lparr>server_pc := Poll\<rparr>)"
| try_succeeds: "server_pc s = Try_lock \<Longrightarrow> shutdown_mutex s = None \<Longrightarrow>
     server_step options s (s\<lparr>shutdown_mutex := Some Server_thread, server_pc := Unlock_shutdown\<rparr>)"
| unlock_shutdown: "server_pc s = Unlock_shutdown \<Longrightarrow>
     server_step options s (s\<lparr>shutdown_mutex := None, server_pc := Final_lock\<rparr>)"
| final_lock: "server_pc s = Final_lock \<Longrightarrow> server_mutex s = None \<Longrightarrow>
     server_step options s (s\<lparr>server_mutex := Some Server_thread, server_pc := Destroy_server\<rparr>)"
| destroy_server: "server_pc s = Destroy_server \<Longrightarrow>
     server_step options s (s\<lparr>server_alive := False, server_pc := Final_notify\<rparr>)"
| final_notify: "server_pc s = Final_notify \<Longrightarrow>
     server_step options s ((notify_one s)\<lparr>server_pc := Final_unlock\<rparr>)"
| final_unlock: "server_pc s = Final_unlock \<Longrightarrow>
     server_step options s (s\<lparr>server_mutex := None, server_pc := Finished\<rparr>)"

text \<open>The end of \<^verbatim>\<open>main\<close> ends the process, so no thread goes on after it; nor after undefined behaviour.\<close>

inductive mg_step :: "(string \<Rightarrow> mg_call list \<times> mg_result) \<Rightarrow> mg_state \<Rightarrow> mg_state \<Rightarrow> bool" for options where
  main_thread: "main_step s t \<Longrightarrow> \<not> undefined_behaviour s \<Longrightarrow> mg_step options s t"
| server_thread: "server_step options s t \<Longrightarrow> \<not> undefined_behaviour s \<Longrightarrow> main_pc s \<noteq> Exited \<Longrightarrow>
     mg_step options s t"

abbreviation mg_reach :: "(string \<Rightarrow> mg_call list \<times> mg_result) \<Rightarrow> mg_state \<Rightarrow> bool" where
  "mg_reach options \<equiv> reaches (mg_step options) constructed"

inductive_cases main_stepE: "main_step s t"
inductive_cases server_stepE: "server_step options s t"

subsection \<open>The invariant\<close>

text \<open>
  The main thread owns \<^verbatim>\<open>shutdown_mutex\<close> for ever; who owns \<^verbatim>\<open>server_mutex\<close> shows in the two
  program counters; the server thread notifies only when the main thread is past its call of \<^verbatim>\<open>wait\<close>.
\<close>

definition mg_inv :: "mg_state \<Rightarrow> bool" where
  "mg_inv s =
     (shutdown_mutex s = Some Main_thread \<and> main_pc s \<noteq> Exited \<and>
      (undefined_behaviour s \<longrightarrow> main_pc s = Destructor) \<and>
      (server_mutex s = Some Main_thread) = (main_pc s \<in> {Spawn, Wait_call, Run_unlock}) \<and>
      (server_mutex s = Some Server_thread) = (server_pc s \<in> {Set_option, Notify, Loop_unlock}) \<and>
      server_pc s \<in> {Not_started, Loop_lock, Set_option, Notify, Loop_unlock, Poll, Try_lock} \<and>
      (server_pc s = Not_started) = (main_pc s \<in> {Run_lock, Spawn}) \<and>
      (main_pc s = Wait_call \<longrightarrow> server_pc s = Loop_lock) \<and>
      (main_pc s = Blocked \<longrightarrow> server_pc s \<in> {Loop_lock, Set_option, Notify}) \<and>
      port_set s = (server_pc s \<in> {Notify, Loop_unlock, Poll, Try_lock}) \<and> server_alive s)"

lemma mg_inv_constructed: "mg_inv constructed"
  by (simp add: mg_inv_def constructed_def)

lemma mg_inv_main: "main_step s t \<Longrightarrow> mg_inv s \<Longrightarrow> \<not> undefined_behaviour s \<Longrightarrow> mg_inv t"
  by (erule main_stepE) (auto simp: mg_inv_def destroy_members_def)

lemma mg_inv_server: "server_step options s t \<Longrightarrow> mg_inv s \<Longrightarrow> \<not> undefined_behaviour s \<Longrightarrow> mg_inv t"
  by (erule server_stepE) (auto simp: mg_inv_def notify_one_def)

lemma mg_inv_step: "mg_inv s \<Longrightarrow> mg_step options s t \<Longrightarrow> mg_inv t"
  by (erule mg_step.cases) (auto intro: mg_inv_main mg_inv_server)

interpretation mg: step_machine "mg_step options" constructed mg_inv for options
  by unfold_locales (rule mg_inv_constructed, rule mg_inv_step)

text \<open>What the handler answers.\<close>

definition possible_answers ::
  "(string \<Rightarrow> mg_call list \<times> mg_result) \<Rightarrow> (mg_call list \<times> mg_result) set" where
  "possible_answers options = {options ''/'', hello, ([], MG_FALSE)}"

lemma evHandler_answers: "evHandler options uri ev \<in> possible_answers options"
  by (cases ev) (auto simp: evHandler_def possible_answers_def)

lemma answers_step:
  assumes "mg_step options s t" and "set (answers s) \<subseteq> possible_answers options"
  shows "set (answers t) \<subseteq> possible_answers options"
  using assms(1)
proof (cases rule: mg_step.cases)
  case main_thread
  from main_thread(1) have "answers t = answers s"
    by (cases rule: main_step.cases) (auto simp: destroy_members_def)
  then show ?thesis using assms(2) by simp
next
  case server_thread
  have "set (map (\<lambda>(uri, ev). evHandler options uri ev) evs) \<subseteq> possible_answers options" for evs
    using evHandler_answers [of options] by auto
  with server_thread(1) show ?thesis
    by (cases rule: server_step.cases) (use assms(2) in \<open>auto simp: notify_one_def\<close>)
qed

lemma mg_reach_answers: "mg_reach options s \<Longrightarrow> set (answers s) \<subseteq> possible_answers options"
  by (erule mg.reach_stays) (simp add: constructed_def, rule answers_step)

text \<open>No thread is ever stuck for good.\<close>

lemma mg_progress:
  assumes "mg_inv s" and "\<not> undefined_behaviour s"
  shows "\<exists>t. mg_step options s t"
proof (cases "main_pc s")
  case Run_lock
  then have "server_mutex s = None" using assms(1)
    by (cases "server_mutex s") (auto simp: mg_inv_def split: owner.splits, metis owner.exhaust)
  then show ?thesis using main_step.run_lock [OF Run_lock] assms(2) by (blast intro: mg_step.intros)
next
  case Relock
  show ?thesis
  proof (cases "server_mutex s")
    case None
    then show ?thesis using main_step.relock [OF Relock] assms(2) by (blast intro: mg_step.intros)
  next
    case (Some w)
    then have "server_pc s \<in> {Set_option, Notify, Loop_unlock}" using assms(1) Relock
      by (cases w) (auto simp: mg_inv_def)
    then have "\<exists>t. server_step options s t" by (auto intro: server_step.intros)
    moreover have "main_pc s \<noteq> Exited" using Relock by simp
    ultimately show ?thesis using assms(2) by (blast intro: mg_step.server_thread)
  qed
qed (use assms in \<open>auto simp: mg_inv_def intro: main_step.intros mg_step.main_thread\<close>)

subsection \<open>Runs\<close>

lemma main_goes: "mg_reach options s \<Longrightarrow> main_step s t \<Longrightarrow> \<not> undefined_behaviour s \<Longrightarrow> mg_reach options t"
  by (blast intro: reaches.one_more mg_step.main_thread)

lemma server_goes:
  "mg_reach options s \<Longrightarrow> server_step options s t \<Longrightarrow> \<not> undefined_behaviour s \<Longrightarrow> main_pc s \<noteq> Exited \<Longrightarrow>
     mg_reach options t"
  by (blast intro: reaches.one_more mg_step.server_thread)

text \<open>States of a run in which nothing was asked yet.\<close>

definition in_run :: "main_at \<Rightarrow> server_at \<Rightarrow> owner option \<Rightarrow> bool \<Rightarrow> mg_state" where
  "in_run m srv mutex port =
     constructed\<lparr>main_pc := m, server_pc := srv, server_mutex := mutex, port_set := port\<rparr>"

lemmas run_simps = in_run_def constructed_def notify_one_def destroy_members_def

lemma run_until_blocked: "mg_reach options (in_run Blocked Loop_lock None False)"
proof -
  have "mg_reach options (in_run Run_lock Not_started None False)"
    using reaches.at_start by (simp add: run_simps)
  then have "mg_reach options (in_run Spawn Not_started (Some Main_thread) False)"
    by (rule main_goes)
      (use main_step.run_lock [of "in_run Run_lock Not_started None False"] in \<open>simp_all add: run_simps\<close>)
  then have "mg_reach options (in_run Wait_call Loop_lock (Some Main_thread) False)"
    by (rule main_goes)
      (use main_step.spawn [of "in_run Spawn Not_started (Some Main_thread) False"]
        in \<open>simp_all add: run_simps\<close>)
  then show ?thesis
    by (rule main_goes)
      (use main_step.wait [of "in_run Wait_call Loop_lock (Some Main_thread) False"]
        in \<open>simp_all add: run_simps\<close>)
qed

lemma run_until_port_set: "mg_reach options (in_run Relock Poll None True)"
proof -
  have "mg_reach options (in_run Blocked Set_option (Some Server_thread) False)"
    by (rule server_goes [OF run_until_blocked])
      (use server_step.loop_lock [of "in_run Blocked Loop_lock None False"] in \<open>simp_all add: run_simps\<close>)
  then have "mg_reach options (in_run Blocked Notify (Some Server_thread) True)"
    by (rule server_goes)
      (use server_step.set_option [of "in_run Blocked Set_option (Some Server_thread) False"]
        in \<open>simp_all add: run_simps\<close>)
  then have "mg_reach options (in_run Relock Loop_unlock (Some Server_thread) True)"
    by (rule server_goes)
      (use server_step.notify [of "in_run Blocked Notify (Some Server_thread) True"]
        in \<open>simp_all add: run_simps\<close>)
  then show ?thesis
    by (rule server_goes)
      (use server_step.loop_unlock [of "in_run Relock Loop_unlock (Some Server_thread) True"]
        in \<open>simp_all add: run_simps\<close>)
qed

lemma run_until_destructor: "mg_reach options (in_run Destructor Poll None True)"
proof -
  have "mg_reach options (in_run Run_unlock Poll (Some Main_thread) True)"
    by (rule main_goes [OF run_until_port_set])
      (use main_step.relock [of "in_run Relock Poll None True"] in \<open>simp_all add: run_simps\<close>)
  then show ?thesis
    by (rule main_goes)
      (use main_step.run_unlock [of "in_run Run_unlock Poll (Some Main_thread) True"]
        in \<open>simp_all add: run_simps\<close>)
qed

lemma run_until_end:
  "mg_reach options ((in_run Destructor Poll None True)\<lparr>undefined_behaviour := True\<rparr>)"
  by (rule main_goes [OF run_until_destructor])
    (use main_step.destructor [of "in_run Destructor Poll None True"] in \<open>simp_all add: run_simps\<close>)

section \<open>Properties\<close>

text \<open>
  C18. The proxy never shuts down in order: in every reachable state the constructor's lock is still
  held, so the server thread is before or in its loop, the server is not destroyed, and the process has not
  ended normally; the only way out is the end of \<^verbatim>\<open>main\<close>, whose destruction of a locked mutex is undefined, and
  it can come before a single request was polled. Until then every answer is that of \<^verbatim>\<open>hello\<close>, of
  \<^verbatim>\<open>options\<close>, or a refusal, and some thread can always go on.
\<close>

theorem mongoose_never_shuts_down:
  assumes "mg_reach options s"
  shows "shutdown_mutex s = Some Main_thread \<and> server_alive s \<and> main_pc s \<noteq> Exited \<and>
    server_pc s \<in> {Not_started, Loop_lock, Set_option, Notify, Loop_unlock, Poll, Try_lock} \<and>
    (main_pc s = Destructor \<longrightarrow> (\<forall>t. main_step s t \<longrightarrow> undefined_behaviour t)) \<and>
    set (answers s) \<subseteq> {options ''/'', hello, ([], MG_FALSE)} \<and>
    (undefined_behaviour s \<or> (\<exists>t. mg_step options s t)) \<and>
    (\<exists>t. mg_reach options t \<and> undefined_behaviour t \<and> answers t = [])"
proof -
  have inv: "mg_inv s" using assms by (rule mg.reach_inv)
  have "undefined_behaviour t" if "main_pc s = Destructor" and "main_step s t" for t
    using that(2,1) inv by (cases rule: main_step.cases) (auto simp: mg_inv_def destroy_members_def)
  moreover have "undefined_behaviour s \<or> (\<exists>t. mg_step options s t)" using mg_progress [OF inv] by blast
  moreover have "\<exists>t. mg_reach options t \<and> undefined_behaviour t \<and> answers t = []"
    by (intro exI conjI, rule run_until_end) (simp_all add: run_simps)
  ultimately show ?thesis
    using inv mg_reach_answers [OF assms] by (simp add: mg_inv_def possible_answers_def) blast
qed

theorem mongoose_never_shuts_down_witness:
  "main_pc (in_run Destructor Poll None True) = Destructor \<and>
   undefined_behaviour (destroy_members (in_run Destructor Poll None True))"
  using mongoose_never_shuts_down [OF run_until_destructor] main_step.destructor
  by (simp add: run_simps)

text \<open>
  C35. The wake-up cannot be lost: a main thread that is blocked has not been notified yet, the port is set and
  the notification sent only after it entered the wait, because it holds the mutex from before it starts the
  thread until then. When the thread is about to notify, the main thread waits or is past the wait.
\<close>

theorem mongoose_no_lost_wakeup:
  assumes "mg_reach options s"
  shows "(main_pc s = Blocked \<longrightarrow> server_pc s \<in> {Loop_lock, Set_option, Notify}) \<and>
    (server_pc s = Notify \<longrightarrow> main_pc s \<in> {Blocked, Relock, Destructor}) \<and>
    (main_pc s = Run_unlock \<longrightarrow> server_mutex s = Some Main_thread)"
proof -
  have inv: "mg_inv s" using assms by (rule mg.reach_inv)
  then show ?thesis by (cases "main_pc s") (auto simp: mg_inv_def)
qed

theorem mongoose_no_lost_wakeup_witness:
  "server_pc (in_run Blocked Loop_lock None False) \<in> {Loop_lock, Set_option, Notify}"
  using mongoose_no_lost_wakeup [OF run_until_blocked] by (simp add: run_simps)

end
