(* ===== verification/Echo_Session.thy ===== *)
theory Echo_Session
  imports Echo_Server Async_Client Step_Machine
begin

section \<open>The client and the echo server together (async/nonblocking/client.cpp, server.cpp)\<close>

text \<open>
  One request of the client against one connection of the server, over a network without faults: bytes
  on the way to the server (\<open>up\<close>) and back (\<open>down\<close>) keep their order. The handlers are those of the
  two component theories, started and returned to one by one. The server's socket is non-blocking: a read takes what is there and ends with
  \<^verbatim>\<open>would_block\<close>. The client's is blocking: \<^verbatim>\<open>asio::write\<close> sends everything, and \<^verbatim>\<open>asio::read\<close> into a growing
  buffer collects until the peer has closed the connection, as the library documents it; \<open>reading\<close> is
  what the call has collected. The read handler starts when the socket is readable: there are bytes, or the
  peer has closed.
\<close>

record echo_session =
  client_side :: Async_Client.connection
  server_side :: "Echo_Server.connection option"
  up :: string
  down :: string
  reading :: string

definition begin_session :: "string \<Rightarrow> echo_session" where
  "begin_session r =
     \<lparr>client_side = Async_Client.new_connection r, server_side = None, up = [], down = [], reading = []\<rparr>"

text \<open>A step of the client: a handler starts, or the call inside it returns.\<close>

definition client_does :: "Async_Client.conn_event \<Rightarrow> echo_session \<Rightarrow> echo_session" where
  "client_does e s = s\<lparr>client_side := fst (Async_Client.conn_step (client_side s) e)\<rparr>"

definition peer_closed :: "echo_session \<Rightarrow> bool" where
  "peer_closed s = (case server_side s of None \<Rightarrow> False | Some v \<Rightarrow> \<not> Echo_Server.socket_open v)"

inductive session_step :: "echo_session \<Rightarrow> echo_session \<Rightarrow> bool" where
  resolve: "Async_Client.conn_ok (client_side s) (Resolved Success False) \<Longrightarrow>
     session_step s (client_does (Resolved Success False) s)"
| connect: "Async_Client.conn_ok (client_side s) (Connected True True) \<Longrightarrow>
     session_step s (client_does (Connected True True) s)"
| accept: "Async_Client.socket_open (client_side s) \<Longrightarrow> server_side s = None \<Longrightarrow>
     session_step s (s\<lparr>server_side := Some (Echo_Server.start Echo_Server.new_connection)\<rparr>)"
| begin_write: "Async_Client.conn_ok (client_side s) (Async_Client.Write_ready Success) \<Longrightarrow>
     session_step s (client_does (Async_Client.Write_ready Success) s)"
| send: "Async_Client.inside (client_side s) = Some (In_write r) \<Longrightarrow>
     session_step s ((client_does (Written (length r, Success)) s)\<lparr>up := up s @ r\<rparr>)"
| serve_read: "server_side s = Some v \<Longrightarrow> Echo_Server.Wait_read \<in> set (Echo_Server.waits v) \<Longrightarrow>
     0 < k \<Longrightarrow> k \<le> length (up s) \<Longrightarrow>
     session_step s
       (s\<lparr>server_side := Some (Echo_Server.conn_step v
            (Echo_Server.Read_ready Success (take k (up s), Would_block))), up := drop k (up s)\<rparr>)"
| serve_write: "server_side s = Some v \<Longrightarrow> Echo_Server.Wait_write \<in> set (Echo_Server.waits v) \<Longrightarrow>
     b = Echo_Server.write_buffer (Echo_Server.session v) \<Longrightarrow> 0 < n \<Longrightarrow> n \<le> length b \<Longrightarrow>
     session_step s
       (s\<lparr>server_side := Some (Echo_Server.conn_step v
            (Echo_Server.Write_ready Success (n, if n = length b then Success else Would_block))),
          down := down s @ take n b\<rparr>)"
| begin_read: "Async_Client.conn_ok (client_side s) (Async_Client.Read_ready Success) \<Longrightarrow>
     down s \<noteq> [] \<or> peer_closed s \<Longrightarrow>
     session_step s (client_does (Async_Client.Read_ready Success) s)"
| collect: "Async_Client.inside (client_side s) = Some In_read \<Longrightarrow> 0 < k \<Longrightarrow> k \<le> length (down s) \<Longrightarrow>
     session_step s (s\<lparr>reading := reading s @ take k (down s), down := drop k (down s)\<rparr>)"
| end_of_file: "Async_Client.inside (client_side s) = Some In_read \<Longrightarrow> down s = [] \<Longrightarrow> peer_closed s \<Longrightarrow>
     session_step s (client_does (Read_done (reading s, Eof)) s)"

abbreviation session_reach :: "string \<Rightarrow> echo_session \<Rightarrow> bool" where
  "session_reach r \<equiv> reaches session_step (begin_session r)"

inductive_cases session_stepE: "session_step s t"

subsection \<open>The invariant\<close>

text \<open>What the client has printed at each place.\<close>

definition lines_before_write :: "string \<Rightarrow> Async_Client.log_line list" where
  "lines_before_write r = [Host_resolved, Sending (c_str r)]"

definition client_lines :: "string \<Rightarrow> Async_Client.connection \<Rightarrow> Async_Client.log_line list" where
  "client_lines r c =
     (if Async_Client.resolving c \<noteq> None then []
      else case Async_Client.inside c of
          Some (In_connect q) \<Rightarrow> [Host_resolved]
        | Some (In_write q) \<Rightarrow> lines_before_write r @ [Write_result Success]
        | Some In_read \<Rightarrow> lines_before_write r @ [Write_result Success, Read_result Success]
        | None \<Rightarrow>
            (if Async_Client.sent c = [] then lines_before_write r
             else lines_before_write r @ [Write_result Success]))"

text \<open>The client: nothing sent, or everything; never idle; and its socket is open from the connect on.\<close>

definition client_phase :: "string \<Rightarrow> Async_Client.connection \<Rightarrow> bool" where
  "client_phase r c =
     (Async_Client.wanted c = r \<and> Async_Client.conn_inv c \<and> \<not> idle c \<and>
      Async_Client.sent c \<in> {[], r} \<and> Async_Client.log c = client_lines r c)"

definition session_inv :: "string \<Rightarrow> echo_session \<Rightarrow> bool" where
  "session_inv r s =
     (client_phase r (client_side s) \<and>
      (Async_Client.inside (client_side s) = Some In_read \<or> reading s = []) \<and>
      (case server_side s of
         None \<Rightarrow> up s = Async_Client.sent (client_side s) \<and> down s = [] \<and> reading s = []
       | Some v \<Rightarrow>
           Echo_Server.conn_inv v \<and> Echo_Server.socket_open v \<and> Async_Client.socket_open (client_side s) \<and>
           Async_Client.sent (client_side s) = Echo_Server.received v @ up s \<and>
           Echo_Server.sent v = reading s @ down s))"

text \<open>The handlers of the client, as the session uses them: what they send, and the lines they add.\<close>

lemma client_does_sel [simp]:
  "server_side (client_does e s) = server_side s" "up (client_does e s) = up s"
  "down (client_does e s) = down s" "reading (client_does e s) = reading s"
  "client_side (client_does e s) = fst (Async_Client.conn_step (client_side s) e)"
  by (simp_all add: client_does_def)

fun client_event :: "Async_Client.connection \<Rightarrow> Async_Client.conn_event \<Rightarrow> bool" where
  "client_event c (Resolved ec nothing) = (ec = Success \<and> \<not> nothing)"
| "client_event c (Connected a b) = (a \<and> b)"
| "client_event c (Async_Client.Write_ready ec) = (ec = Success)"
| "client_event c (Written ans) = (ans = (length (Async_Client.wanted c), Success))"
| "client_event c (Async_Client.Read_ready ec) = (ec = Success)"
| "client_event c (Read_done ans) = False"

lemma client_goes_on:
  assumes "client_phase r c" and "Async_Client.conn_ok c e" and "client_event c e" and "r \<noteq> []"
    and "d = fst (Async_Client.conn_step c e)"
  shows "client_phase r d" and "Async_Client.work d < Async_Client.work c"
    and "Async_Client.sent d = (case e of Written ans \<Rightarrow> r | _ \<Rightarrow> Async_Client.sent c)"
    and "Async_Client.socket_open c \<Longrightarrow> Async_Client.socket_open d"
    and "(Async_Client.inside d = Some In_read) = (\<exists>ec. e = Async_Client.Read_ready ec)"
proof -
  have inv: "Async_Client.conn_inv c" using assms(1) by (simp add: client_phase_def)
  show "Async_Client.work d < Async_Client.work c"
    using Async_Client.conn_step_inv_work [OF inv assms(2)] assms(5) by simp
  show "Async_Client.socket_open c \<Longrightarrow> Async_Client.socket_open d"
    using Async_Client.conn_step_open [OF inv assms(2)] assms(5) by simp
  have d: "Async_Client.conn_inv d"
    using Async_Client.conn_step_inv_work [OF inv assms(2)] assms(5) by simp
  have "Async_Client.sent d = (case e of Written ans \<Rightarrow> r | _ \<Rightarrow> Async_Client.sent c) \<and>
    (Async_Client.inside d = Some In_read) = (\<exists>ec. e = Async_Client.Read_ready ec) \<and>
    Async_Client.wanted d = r \<and> \<not> idle d \<and> Async_Client.log d = client_lines r d"
    using assms inv
    by (cases e) (auto simp: client_phase_def Async_Client.conn_inv_def quiet_def idle_def client_lines_def
        lines_before_write_def Async_Client.conn_defs split: phase_splits)
  with d assms(1) show "client_phase r d"
    "Async_Client.sent d = (case e of Written ans \<Rightarrow> r | _ \<Rightarrow> Async_Client.sent c)"
    "(Async_Client.inside d = Some In_read) = (\<exists>ec. e = Async_Client.Read_ready ec)"
    by (auto simp: client_phase_def split: Async_Client.conn_event.splits)
qed

lemma server_starts:
  "Echo_Server.conn_inv (Echo_Server.start Echo_Server.new_connection) \<and>
   Echo_Server.socket_open (Echo_Server.start Echo_Server.new_connection) \<and>
   Echo_Server.received (Echo_Server.start Echo_Server.new_connection) = [] \<and>
   Echo_Server.sent (Echo_Server.start Echo_Server.new_connection) = []"
  using Echo_Server.conn_inv_start
  by (simp add: Echo_Server.start_def Echo_Server.new_connection_def Echo_Server.new_session_def
      Echo_Server.conn_defs)

lemma server_reads:
  assumes "Echo_Server.conn_inv v" and "Echo_Server.Wait_read \<in> set (Echo_Server.waits v)"
    and "w = Echo_Server.conn_step v (Echo_Server.Read_ready Success (bs, Would_block))"
  shows "Echo_Server.conn_inv w \<and> Echo_Server.socket_open w \<and>
    Echo_Server.sent w = Echo_Server.sent v \<and> Echo_Server.received w = Echo_Server.received v @ bs \<and>
    Echo_Server.write_buffer (Echo_Server.session w) = Echo_Server.write_buffer (Echo_Server.session v) @ bs"
proof -
  have ok: "Echo_Server.conn_ok v (Echo_Server.Read_ready Success (bs, Would_block))" using assms(2) by simp
  have "Echo_Server.conn_inv w" unfolding assms(3) by (rule Echo_Server.conn_inv_step [OF assms(1) ok])
  moreover have "echo_abs w = echo_spec (echo_abs v) (Arrive bs True)"
    using conn_step_echo [OF assms(1) ok] by (simp add: assms(3) goes_on_def)
  ultimately show ?thesis using assms(1) by (simp add: echo_abs_def Echo_Server.conn_inv_def)
qed

lemma server_writes:
  assumes "Echo_Server.conn_inv v" and "Echo_Server.Wait_write \<in> set (Echo_Server.waits v)"
    and "n \<le> length (Echo_Server.write_buffer (Echo_Server.session v))"
    and "w = Echo_Server.conn_step v (Echo_Server.Write_ready Success
      (n, if n = length (Echo_Server.write_buffer (Echo_Server.session v)) then Success else Would_block))"
  shows "Echo_Server.conn_inv w \<and> Echo_Server.socket_open w \<and>
    Echo_Server.sent w = Echo_Server.sent v @ take n (Echo_Server.write_buffer (Echo_Server.session v)) \<and>
    Echo_Server.received w = Echo_Server.received v \<and>
    Echo_Server.write_buffer (Echo_Server.session w) =
      drop n (Echo_Server.write_buffer (Echo_Server.session v))"
proof -
  let ?e = "Echo_Server.Write_ready Success
      (n, if n = length (Echo_Server.write_buffer (Echo_Server.session v)) then Success else Would_block)"
  have ok: "Echo_Server.conn_ok v ?e" using assms(2,3) by simp
  have "Echo_Server.conn_inv w" unfolding assms(4) by (rule Echo_Server.conn_inv_step [OF assms(1) ok])
  moreover have "echo_abs w = echo_spec (echo_abs v) (Depart n True)"
    using conn_step_echo [OF assms(1) ok] by (simp add: assms(4) goes_on_def)
  ultimately show ?thesis using assms(1) by (simp add: echo_abs_def Echo_Server.conn_inv_def)
qed

subsection \<open>Every step keeps it\<close>

lemma session_inv_begin: "session_inv r (begin_session r)"
  using Async_Client.conn_inv_new [of r]
  by (simp add: session_inv_def begin_session_def client_phase_def client_lines_def idle_def
      Async_Client.new_connection_def)

lemma phase_of_session: "session_inv r s \<Longrightarrow> client_phase r (client_side s)"
  by (simp add: session_inv_def)

lemma never_closed: "session_inv r s \<Longrightarrow> \<not> peer_closed s"
  by (auto simp: session_inv_def peer_closed_def split: option.splits)

text \<open>A step of the client that sends nothing.\<close>

lemma client_does_inv:
  assumes "session_inv r s" and "r \<noteq> []" and "Async_Client.conn_ok (client_side s) e"
    and "client_event (client_side s) e" and "\<And>ans. e \<noteq> Written ans" and "\<And>ans. e \<noteq> Read_done ans"
  shows "session_inv r (client_does e s)"
proof -
  note client = client_goes_on [OF phase_of_session [OF assms(1)] assms(3,4,2) refl]
  have "Async_Client.sent (fst (Async_Client.conn_step (client_side s) e)) = Async_Client.sent (client_side s)"
    using client(3) assms(5) by (cases e) auto
  moreover have "reading s = []"
    using assms(1,3,6) by (cases e) (auto simp: session_inv_def split: phase_splits)
  ultimately show ?thesis using assms(1) client(1,4) by (auto simp: session_inv_def split: option.splits)
qed

lemma client_sends:
  assumes "session_inv r s" and "r \<noteq> []" and "Async_Client.inside (client_side s) = Some (In_write q)"
  shows "q = r" and "Async_Client.sent (client_side s) = []" and "reading s = []"
    and "Async_Client.conn_ok (client_side s) (Written (length q, Success))"
    and "client_event (client_side s) (Written (length q, Success))"
  using assms by (auto simp: session_inv_def client_phase_def Async_Client.conn_inv_def split: option.splits)

lemma session_inv_step:
  assumes "session_step s t" and "session_inv r s" and "r \<noteq> []"
  shows "session_inv r t"
  using assms(1)
proof (cases rule: session_step.cases)
  case resolve
  then show ?thesis using client_does_inv [OF assms(2,3) resolve(2)] by simp
next
  case connect
  then show ?thesis using client_does_inv [OF assms(2,3) connect(2)] by simp
next
  case accept
  then show ?thesis using assms(2) server_starts by (simp add: session_inv_def)
next
  case begin_write
  then show ?thesis using client_does_inv [OF assms(2,3) begin_write(2)] by simp
next
  case (send q)
  note q = client_sends [OF assms(2,3) send(2)]
  note client = client_goes_on [OF phase_of_session [OF assms(2)] q(4,5) assms(3) refl]
  then show ?thesis using assms(2) q(1-3) send(1)
    by (auto simp: session_inv_def simp del: Async_Client.conn_step.simps split: option.splits)
next
  case (serve_read v k)
  then have inv: "Echo_Server.conn_inv v" using assms(2) by (simp add: session_inv_def)
  from server_reads [OF this serve_read(3) refl, of "take k (up s)"] serve_read show ?thesis
    using assms(2) by (simp add: session_inv_def)
next
  case (serve_write v b n)
  then have inv: "Echo_Server.conn_inv v" using assms(2) by (simp add: session_inv_def)
  from server_writes [OF this serve_write(3) _ refl, of n] serve_write show ?thesis
    using assms(2) by (simp add: session_inv_def)
next
  case begin_read
  then show ?thesis using client_does_inv [OF assms(2,3) begin_read(2)] by simp
next
  case (collect k)
  then show ?thesis using assms(2) by (auto simp: session_inv_def split: option.splits)
next
  case end_of_file
  then show ?thesis using never_closed [OF assms(2)] by simp
qed

subsection \<open>Every run ends\<close>

definition server_work :: "echo_session \<Rightarrow> nat" where
  "server_work s =
     (case server_side s of None \<Rightarrow> 1
      | Some v \<Rightarrow> 2 * length (Echo_Server.write_buffer (Echo_Server.session v)))"

text \<open>A byte is read, written, and collected: its work in the three places.\<close>

definition session_work :: "echo_session \<Rightarrow> nat" where
  "session_work s =
     Async_Client.work (client_side s) +
     (if Async_Client.sent (client_side s) = [] then 3 * length (Async_Client.wanted (client_side s)) else 0) +
     3 * length (up s) + server_work s + length (down s)"

lemma client_does_work:
  assumes "session_inv r s" and "r \<noteq> []" and "Async_Client.conn_ok (client_side s) e"
    and "client_event (client_side s) e" and "\<And>ans. e \<noteq> Written ans"
  shows "session_work (client_does e s) < session_work s"
proof -
  note client = client_goes_on [OF phase_of_session [OF assms(1)] assms(3,4,2) refl]
  have "Async_Client.sent (fst (Async_Client.conn_step (client_side s) e)) = Async_Client.sent (client_side s)"
    using client(3) assms(5) by (cases e) auto
  then show ?thesis using client(2)
    by (simp add: session_work_def server_work_def Async_Client.conn_step_wanted)
qed

lemma session_work_step:
  assumes "session_step s t" and "session_inv r s" and "r \<noteq> []"
  shows "session_work t < session_work s"
  using assms(1)
proof (cases rule: session_step.cases)
  case resolve
  then show ?thesis using client_does_work [OF assms(2,3) resolve(2)] by simp
next
  case connect
  then show ?thesis using client_does_work [OF assms(2,3) connect(2)] by simp
next
  case accept
  then show ?thesis
    by (simp add: session_work_def server_work_def Echo_Server.start_def Echo_Server.new_connection_def
        Echo_Server.new_session_def Echo_Server.conn_defs)
next
  case begin_write
  then show ?thesis using client_does_work [OF assms(2,3) begin_write(2)] by simp
next
  case (send q)
  note q = client_sends [OF assms(2,3) send(2)]
  note client = client_goes_on [OF phase_of_session [OF assms(2)] q(4,5) assms(3) refl]
  have "Async_Client.wanted (client_side s) = r"
    using phase_of_session [OF assms(2)] by (simp add: client_phase_def)
  then show ?thesis using client(2,3) q(1,2) assms(3) send(1)
    by (simp add: session_work_def server_work_def Async_Client.conn_step_wanted
        del: Async_Client.conn_step.simps)
next
  case (serve_read v k)
  then have "Echo_Server.conn_inv v" using assms(2) by (simp add: session_inv_def)
  from server_reads [OF this serve_read(3) refl, of "take k (up s)"] serve_read show ?thesis
    by (simp add: session_work_def server_work_def)
next
  case (serve_write v b n)
  then have "Echo_Server.conn_inv v" using assms(2) by (simp add: session_inv_def)
  from server_writes [OF this serve_write(3) _ refl, of n] serve_write show ?thesis
    by (simp add: session_work_def server_work_def)
next
  case begin_read
  then show ?thesis using client_does_work [OF assms(2,3) begin_read(2)] by simp
next
  case (collect k)
  then have "length (down t) < length (down s)" "server_work t = server_work s" "up t = up s"
      "client_side t = client_side s"
    by (simp_all add: server_work_def)
  then show ?thesis by (simp add: session_work_def)
next
  case end_of_file
  then show ?thesis using never_closed [OF assms(2)] by simp
qed

text \<open>A state in which nothing can happen any more is one in which the client waits for the end of the stream.\<close>

lemma stuck_session:
  assumes "session_inv r s" and "r \<noteq> []" and "\<nexists>t. session_step s t"
  shows "Async_Client.inside (client_side s) = Some In_read \<and> reading s = r \<and> up s = [] \<and> down s = []"
proof -
  have no: "session_step s t \<Longrightarrow> False" for t using assms(3) by blast
  have phase: "Async_Client.conn_inv (client_side s)" "\<not> idle (client_side s)"
      "Async_Client.wanted (client_side s) = r" "Async_Client.sent (client_side s) \<in> {[], r}"
    using assms(1) by (simp_all add: session_inv_def client_phase_def)
  have calls: "Async_Client.inside (client_side s) \<noteq> Some (In_connect q)"
      "Async_Client.inside (client_side s) \<noteq> Some (In_write q)" for q
    using no [OF session_step.connect] no [OF session_step.send] by auto
  have waits: "Async_Client.resolving (client_side s) = None"
      "Async_Client.inside (client_side s) = Some In_read \<or>
       Async_Client.inside (client_side s) = None \<and> Async_Client.waits (client_side s) = [Async_Client.Wait_read]"
    using phase no [OF session_step.resolve] no [OF session_step.begin_write] calls
    by (auto simp: Async_Client.conn_inv_def idle_def quiet_def split: phase_splits)
  then have sent: "Async_Client.sent (client_side s) = r" "Async_Client.socket_open (client_side s)"
    using phase by (auto simp: Async_Client.conn_inv_def quiet_def)
  then obtain v where v: "server_side s = Some v" using no [OF session_step.accept] by blast
  then have inv: "Echo_Server.conn_inv v" "Echo_Server.socket_open v"
    and bytes: "r = Echo_Server.received v @ up s" "Echo_Server.sent v = reading s @ down s"
    using assms(1) sent by (simp_all add: session_inv_def)
  have buffer: "Echo_Server.write_buffer (Echo_Server.session v) = []"
  proof (rule ccontr)
    assume b: "Echo_Server.write_buffer (Echo_Server.session v) \<noteq> []"
    then have "Echo_Server.Wait_write \<in> set (Echo_Server.waits v)" using inv
      by (simp add: Echo_Server.conn_inv_def)
    then show False using no [OF session_step.serve_write [OF v _ refl, of 1]] b by (simp add: Suc_leI)
  qed
  then have "Echo_Server.Wait_read \<in> set (Echo_Server.waits v)" using inv
    by (cases "Echo_Server.state (Echo_Server.session v)") (simp_all add: Echo_Server.conn_inv_def)
  then have up: "up s = []" using no [OF session_step.serve_read [OF v, of 1]] by (cases "up s") auto
  have "Echo_Server.received v = Echo_Server.sent v"
    using inv(1) buffer by (simp add: Echo_Server.conn_inv_def)
  then have all: "r = reading s @ down s" using bytes up by simp
  have reads: "Async_Client.inside (client_side s) = Some In_read"
  proof (rule ccontr)
    assume "Async_Client.inside (client_side s) \<noteq> Some In_read"
    moreover from this have "reading s = []" using assms(1) by (simp add: session_inv_def)
    ultimately show False using waits all assms(2) no [OF session_step.begin_read] by auto
  qed
  then have "down s = []" using no [OF session_step.collect [OF reads, of 1]] by (cases "down s") auto
  then show ?thesis using all up reads by simp
qed

interpretation session: ending_machine session_step "begin_session (c # cs)" "session_inv (c # cs)" session_work
  for c cs
  by unfold_locales (auto intro: session_inv_begin session_inv_step session_work_step)

section \<open>Properties\<close>

text \<open>
  C4. Client and server together, without faults: at every moment what the client collected, the bytes
  on the way back, the server's buffer and the bytes on the way there make up what the client sent; the
  server never closes, the client never gets out of \<^verbatim>\<open>asio::read\<close>, and what it has printed is known at each
  place: never a body. A state is final only if the client has collected its whole request back, inside \<^verbatim>\<open>asio::read\<close>, waiting for an end that does not
  come, the last line it printed being \<^verbatim>\<open>read: Success\<close>; and every run gets there.
\<close>

theorem echo_session_deadlock:
  assumes "session_reach r s" and "r \<noteq> []"
  shows "(case server_side s of
       None \<Rightarrow> reading s = [] \<and> up s = Async_Client.sent (client_side s)
     | Some v \<Rightarrow> Echo_Server.socket_open v \<and>
         reading s @ down s @ Echo_Server.write_buffer (Echo_Server.session v) @ up s =
           Async_Client.sent (client_side s)) \<and>
    Async_Client.log (client_side s) = client_lines r (client_side s) \<and> \<not> idle (client_side s) \<and>
    ((\<nexists>t. session_step s t) \<longrightarrow>
       Async_Client.inside (client_side s) = Some In_read \<and> reading s = r \<and> down s = [] \<and> up s = [] \<and>
       last (Async_Client.log (client_side s)) = Read_result Success) \<and>
    (\<forall>t. session_step s t \<longrightarrow> session_work t < session_work s) \<and>
    (\<exists>t. session_reach r t \<and> (\<nexists>u. session_step t u))"
proof -
  obtain c cs where r: "r = c # cs" using assms(2) by (cases r) auto
  have inv: "session_inv r s" using session.reach_inv assms(1) unfolding r .
  then have bytes: "case server_side s of
       None \<Rightarrow> reading s = [] \<and> up s = Async_Client.sent (client_side s)
     | Some v \<Rightarrow> Echo_Server.socket_open v \<and>
         reading s @ down s @ Echo_Server.write_buffer (Echo_Server.session v) @ up s =
           Async_Client.sent (client_side s)"
    by (auto simp: session_inv_def Echo_Server.conn_inv_def split: option.splits)
  have lines: "Async_Client.log (client_side s) = client_lines r (client_side s)" "\<not> idle (client_side s)"
    using inv by (simp_all add: session_inv_def client_phase_def)
  have "Async_Client.resolving (client_side s) = None"
    if "Async_Client.inside (client_side s) = Some In_read"
    using inv that by (auto simp: session_inv_def client_phase_def Async_Client.conn_inv_def split: option.splits)
  then have "last (Async_Client.log (client_side s)) = Read_result Success"
    if "Async_Client.inside (client_side s) = Some In_read"
    using that lines by (simp add: client_lines_def)
  with bytes lines show ?thesis using stuck_session [OF inv assms(2)] session_work_step [OF _ inv assms(2)]
      session.reach_final [OF assms(1) [unfolded r]] unfolding r by blast
qed

theorem echo_session_deadlock_witness:
  "\<exists>t. session_reach request_text t \<and> reading t = request_text \<and>
     Async_Client.log (client_side t) = client_lines request_text (client_side t)"
proof -
  have r: "request_text \<noteq> []" by (simp add: request_text_def)
  obtain t where t: "session_reach request_text t" "\<nexists>u. session_step t u"
    using echo_session_deadlock [OF reaches.at_start r] by blast
  show ?thesis using echo_session_deadlock [OF t(1) r] t by blast
qed

end
