(* ===== verification/Dht_Http.thy ===== *)
theory Dht_Http
  imports Event_Machine Cpp_Std
begin

section \<open>HTTP requests over OpenDHT (cpp/opendht/http.cpp, http\_errors.cpp, https\_2waystls.cpp)\<close>

text \<open>
  The three programs build one \<^verbatim>\<open>dht::http::Request\<close>, register callbacks and run the
  \<^verbatim>\<open>io_context\<close> under a work guard until a callback stops it. The library reports a state
  change with the response as far as it is known, or a piece of the body; these are the events.
\<close>

subsection \<open>Requests\<close>

datatype req_state = Sending | Receiving | Finished | Other_state nat

record http_response =
  status_code :: nat
  body :: string

datatype field_id = Host | User_agent | Accept | Content_type | Expect

text \<open>The calls on the request object before \<^verbatim>\<open>send()\<close>, in order.\<close>

datatype request_call =
    Set_method_get
  | Set_target string
  | Set_field field_id string
  | Set_body string

definition http_request :: "string \<Rightarrow> string \<Rightarrow> request_call list" where
  "http_request url content =
     [Set_method_get, Set_field Host url, Set_field User_agent ''RESTinio client'',
      Set_field Accept ''*/*'', Set_field Content_type ''application/json'',
      Set_field Expect ''100-continue''] @
     (if content \<noteq> [] then [Set_body content] else [])"

definition http_errors_request :: "string \<Rightarrow> string \<times> request_call list" where
  "http_errors_request http_code =
     (''http://httpstat.us/'' @ http_code,
      [Set_method_get, Set_target (''/'' @ http_code), Set_field Host ''httpstat.us'',
       Set_field User_agent ''client'', Set_field Accept ''*/*'',
       Set_field Content_type ''application/json''])"

subsection \<open>The state-change callback\<close>

datatype log_line =
    State_code req_state nat
  | Request_text
  | Response_body string
  | Failed_with nat
  | Request_done
  | Status nat
  | Parsing_failed
  | Body_error string
  | Json string

record http_client =
  log :: "log_line list"
  stopped :: bool

definition say :: "log_line list \<Rightarrow> http_client \<Rightarrow> http_client" where
  "say ls c = c\<lparr>log := log c @ ls\<rparr>"

definition code_line :: "nat \<Rightarrow> log_line" where
  "code_line code = (if code \<noteq> 200 then Failed_with code else Request_done)"

text \<open>\<^verbatim>\<open>http.cpp\<close>; the other two programs also print the body, the third one up to a NUL.\<close>

definition on_state_change :: "req_state \<Rightarrow> http_response \<Rightarrow> http_client \<Rightarrow> http_client" where
  "on_state_change st resp c =
     (let c1 = say [State_code st (status_code resp)] c in
      if st = Receiving then say [Request_text] c1
      else if st = Finished then (say [code_line (status_code resp)] c1)\<lparr>stopped := True\<rparr>
      else c1)"

definition on_state_change_errors ::
  "req_state \<Rightarrow> http_response \<Rightarrow> http_client \<Rightarrow> http_client" where
  "on_state_change_errors st resp c =
     (let c1 = say [State_code st (status_code resp)] c in
      if st = Receiving then say [Request_text] c1
      else if st = Finished
        then (say [Response_body (body resp), code_line (status_code resp)] c1)\<lparr>stopped := True\<rparr>
      else c1)"

definition on_state_change_tls ::
  "req_state \<Rightarrow> http_response \<Rightarrow> http_client \<Rightarrow> http_client" where
  "on_state_change_tls st resp c =
     (let c1 = say [State_code st (status_code resp)] c in
      if st = Receiving then say [Request_text] c1
      else if st = Finished
        then (say [Response_body (c_str (body resp)), code_line (status_code resp)] c1)
                \<lparr>stopped := True\<rparr>
      else c1)"

subsection \<open>The body callback of http.cpp\<close>

text \<open>
  \<^verbatim>\<open>std::getline(stream, line, '\n')\<close> until it fails: the pieces between line feeds, without an
  empty last piece after a final line feed.
\<close>

fun getlines_from :: "string \<Rightarrow> string \<Rightarrow> string list" where
  "getlines_from l [] = (if l = [] then [] else [l])"
| "getlines_from l (c # s) =
     (if c = LF then l # getlines_from [] s else getlines_from (l @ [c]) s)"

definition getlines :: "string \<Rightarrow> string list" where
  "getlines s = getlines_from [] s"

text \<open>
  \<open>parse\<close> is the JSON reader: \<open>Inl\<close> an exception, \<open>Inr None\<close> a failed parse, otherwise the
  value as \<^verbatim>\<open>operator<<\<close> prints it. The callback returns at the first line that fails.
\<close>

fun parse_lines :: "(string \<Rightarrow> string + string option) \<Rightarrow> string list \<Rightarrow> log_line list" where
  "parse_lines parse [] = []"
| "parse_lines parse (l # ls) =
     (case parse l of
        Inl e \<Rightarrow> [Body_error e]
      | Inr None \<Rightarrow> [Parsing_failed]
      | Inr (Some v) \<Rightarrow> Json v # parse_lines parse ls)"

definition on_body :: "(string \<Rightarrow> string + string option) \<Rightarrow> string \<Rightarrow> http_client \<Rightarrow> http_client" where
  "on_body parse chunk c = say (parse_lines parse (getlines chunk)) c"

definition on_status :: "nat \<Rightarrow> http_client \<Rightarrow> http_client" where
  "on_status code c = say [Status code] c"

datatype http_event =
    State_change req_state http_response
  | Body_part string
  | Status_code nat

fun http_step :: "(string \<Rightarrow> string + string option) \<Rightarrow> http_client \<Rightarrow> http_event \<Rightarrow> http_client" where
  "http_step parse c (State_change st resp) = on_state_change st resp c"
| "http_step parse c (Body_part chunk) = on_body parse chunk c"
| "http_step parse c (Status_code code) = on_status code c"

text \<open>Handlers run until \<^verbatim>\<open>io_context.stop()\<close>; the work guard keeps \<^verbatim>\<open>run()\<close> from returning before.\<close>

definition http_ok :: "http_client \<Rightarrow> http_event \<Rightarrow> bool" where
  "http_ok c e \<longleftrightarrow> \<not> stopped c"

definition new_http_client :: http_client where
  "new_http_client = \<lparr>log = [], stopped = False\<rparr>"

subsection \<open>loadFile\<close>

text \<open>
  What the stream answers: whether it opened, the position \<^verbatim>\<open>tellg\<close> reports at the end (-1 on
  failure), and the bytes read, if the read succeeds. \<^verbatim>\<open>resize\<close> throws for a size that no vector
  can have.
\<close>

datatype load_error = Cant_read string | Too_big string | Cant_load string | Length_error

record file_answers =
  opens :: bool
  end_position :: int
  bytes_read :: "int \<Rightarrow> u8 list option"

definition load_file :: "file_answers \<Rightarrow> string \<Rightarrow> load_error + u8 list" where
  "load_file f path =
     (if \<not> opens f then Inl (Cant_read path)
      else if end_position f > 2 ^ 32 - 1 then Inl (Too_big path)
      else if end_position f < 0 then Inl Length_error
      else (case bytes_read f (end_position f) of
          None \<Rightarrow> Inl (Cant_load path)
        | Some bs \<Rightarrow> Inr bs))"

subsection \<open>Lines and chunks\<close>

lemma getlines_from_append_lf:
  "getlines_from l (s @ LF # t) = getlines_from l (s @ [LF]) @ getlines_from [] t"
  by (induction s arbitrary: l) simp_all

lemma getlines_from_line: "LF \<notin> set l \<Longrightarrow> getlines_from p (l @ LF # s) = (p @ l) # getlines_from [] s"
  by (induction l arbitrary: p) auto

lemma getlines_lines:
  "list_all (\<lambda>l. LF \<notin> set l) ls \<Longrightarrow> getlines (concat (map (\<lambda>l. l @ [LF]) ls)) = ls"
  by (induction ls) (simp_all add: getlines_def getlines_from_line)

text \<open>There is one line per line feed, and one more for text after the last of them.\<close>

lemma length_getlines_from:
  "length (getlines_from l s) =
     count_list s LF + (if l @ s = [] \<or> s \<noteq> [] \<and> last s = LF then 0 else 1)"
  by (induction s arbitrary: l) auto

lemma length_getlines:
  "length (getlines s) = count_list s LF + (if s = [] \<or> last s = LF then 0 else 1)"
  by (auto simp: getlines_def length_getlines_from)

lemma getlines_append_iff:
  "getlines (s @ t) = getlines s @ getlines t \<longleftrightarrow> s = [] \<or> t = [] \<or> last s = LF"
proof
  assume "getlines (s @ t) = getlines s @ getlines t"
  then have "length (getlines (s @ t)) = length (getlines s) + length (getlines t)" by simp
  then show "s = [] \<or> t = [] \<or> last s = LF"
    by (auto simp: length_getlines last_append split: if_splits)
next
  assume "s = [] \<or> t = [] \<or> last s = LF"
  moreover have "getlines (s @ t) = getlines s @ getlines t" if "s \<noteq> []" "last s = LF"
  proof -
    from that have s: "s = butlast s @ [LF]" by (metis append_butlast_last_id)
    then show ?thesis
      using getlines_from_append_lf [of "[]" "butlast s" t] unfolding getlines_def
      by (metis append.assoc append_Cons append_Nil)
  qed
  ultimately show "getlines (s @ t) = getlines s @ getlines t"
    by (cases "s = []") (auto simp: getlines_def)
qed

subsection \<open>Runs\<close>

text \<open>The client has stopped exactly when the last thing it logged is the verdict on a response.\<close>

definition is_verdict :: "log_line \<Rightarrow> bool" where
  "is_verdict l \<longleftrightarrow> l = Request_done \<or> (\<exists>n. l = Failed_with n \<and> n \<noteq> 200)"

definition http_inv :: "http_client \<Rightarrow> bool" where
  "http_inv c \<longleftrightarrow> (stopped c \<longleftrightarrow> log c \<noteq> [] \<and> is_verdict (last (log c)))"

lemma parse_lines_no_verdict: "l \<in> set (parse_lines parse ls) \<Longrightarrow> \<not> is_verdict l"
  by (induction ls) (auto simp: is_verdict_def split: sum.splits option.splits)

lemma code_line_verdict: "is_verdict (code_line n)"
  by (simp add: is_verdict_def code_line_def)

lemma http_inv_step:
  assumes "http_inv c" and "http_ok c e"
  shows "http_inv (http_step parse c e)"
proof (cases e)
  case (Body_part chunk)
  then show ?thesis
    using assms parse_lines_no_verdict [OF last_in_set]
    by (cases "parse_lines parse (getlines chunk) = []")
      (auto simp: http_inv_def http_ok_def on_body_def say_def)
qed (use assms code_line_verdict in \<open>auto simp: http_inv_def http_ok_def on_state_change_def
      on_status_def say_def is_verdict_def Let_def\<close>)

interpretation http: event_machine "http_step parse" http_ok http_inv
  by unfold_locales (rule http_inv_step)

lemma http_inv_new: "http_inv new_http_client"
  by (simp add: http_inv_def new_http_client_def)

lemma stopped_step:
  "stopped (http_step parse c e) \<longleftrightarrow>
     stopped c \<or> (\<exists>resp. e = State_change Finished resp)"
  by (cases e)
    (auto simp: on_state_change_def say_def on_body_def on_status_def Let_def)

lemma stopped_run:
  "stopped (run_events (http_step parse) c es) \<longleftrightarrow>
     stopped c \<or> (\<exists>resp. State_change Finished resp \<in> set es)"
  by (induction es arbitrary: c) (auto simp: stopped_step)

lemma legal_stop_last:
  "legal_events http_ok (http_step parse) c (e # es) \<Longrightarrow>
     e = State_change Finished resp \<Longrightarrow> es = []"
  by (cases es) (auto simp: http_ok_def on_state_change_def Let_def)

text \<open>The verdict that a run ends with.\<close>

definition end_verdict :: "http_event list \<Rightarrow> log_line list" where
  "end_verdict es =
     (if es = [] then [] else
      case last es of
        State_change st resp \<Rightarrow> if st = Finished then [code_line (status_code resp)] else []
      | _ \<Rightarrow> [])"

lemma verdict_lines:
  "\<not> is_verdict (State_code st n)" "\<not> is_verdict Request_text" "\<not> is_verdict (Status n)"
  by (simp_all add: is_verdict_def)

lemma verdicts_step:
  "filter is_verdict (log (http_step parse c e)) = filter is_verdict (log c) @ end_verdict [e]"
proof (cases e)
  case (Body_part chunk)
  have "filter is_verdict (parse_lines parse (getlines chunk)) = []"
    using parse_lines_no_verdict by (auto simp: filter_empty_conv)
  then show ?thesis by (simp add: Body_part on_body_def say_def end_verdict_def)
next
  case (State_change st resp)
  then show ?thesis
    by (simp add: on_state_change_def say_def end_verdict_def code_line_verdict verdict_lines Let_def)
next
  case (Status_code code)
  then show ?thesis by (simp add: on_status_def say_def end_verdict_def verdict_lines)
qed

lemma run_verdicts:
  "legal_events http_ok (http_step parse) new_http_client es \<Longrightarrow>
   filter is_verdict (log (run_events (http_step parse) new_http_client es)) = end_verdict es"
proof (induction es rule: rev_induct)
  case (snoc e es)
  then have "\<not> stopped (run_events (http_step parse) new_http_client es)"
    by (simp add: legal_events_append http_ok_def)
  then have "end_verdict es = []"
    by (cases es rule: rev_cases) (auto simp: stopped_run end_verdict_def split: http_event.splits)
  with snoc show ?case
    by (simp add: legal_events_append run_events_append verdicts_step end_verdict_def)
qed (simp add: new_http_client_def end_verdict_def)

section \<open>Properties of the HTTP programs\<close>

text \<open>
  C37. \<^verbatim>\<open>io_context.run()\<close> of \<^verbatim>\<open>http.cpp\<close> returns exactly when the library has reported the end of the request; whatever was
  reported before, in any order and however the body is cut, the log then holds one verdict on the response, as its
  last line: done for status 200, failed with the status code for any other. Until then there is no verdict.
\<close>

theorem http_run_verdict:
  assumes "legal_events http_ok (http_step parse) new_http_client es"
  shows "let c = run_events (http_step parse) new_http_client es in
    (stopped c = (\<exists>resp. State_change Finished resp \<in> set es)) \<and>
    (stopped c = (log c \<noteq> [] \<and> is_verdict (last (log c)))) \<and>
    filter is_verdict (log c) = end_verdict es"
proof -
  let ?c = "run_events (http_step parse) new_http_client es"
  have "stopped ?c = (\<exists>resp. State_change Finished resp \<in> set es)"
    by (simp add: stopped_run new_http_client_def)
  moreover have "http_inv ?c" using assms by (rule http.run_inv [OF http_inv_new])
  ultimately show ?thesis using run_verdicts [OF assms] by (simp add: Let_def http_inv_def)
qed

theorem http_run_verdict_witness:
  "filter is_verdict (log (run_events (http_step (\<lambda>s. Inr None)) new_http_client
     [Status_code 404, Body_part ''x'', State_change Finished \<lparr>status_code = 404, body = ''x''\<rparr>])) = [Failed_with 404]"
proof -
  have "legal_events http_ok (http_step (\<lambda>s. Inr None)) new_http_client
      [Status_code 404, Body_part ''x'', State_change Finished \<lparr>status_code = 404, body = ''x''\<rparr>]"
    by (simp add: http_ok_def new_http_client_def on_status_def on_body_def say_def)
  from http_run_verdict [OF this] show ?thesis by (simp add: Let_def end_verdict_def code_line_def)
qed

text \<open>
  The body callback of \<^verbatim>\<open>http.cpp\<close> takes one JSON value per line of the piece it is given. It
  sees the lines of the whole body if and only if no piece boundary falls inside a line:
  splitting a body in two keeps its lines exactly when a part is empty or the first part ends
  with a line feed. And lines that end with a line feed come back one by one.
\<close>

theorem http_body_lines:
  "(getlines (s @ t) = getlines s @ getlines t) = (s = [] \<or> t = [] \<or> last s = LF) \<and>
   getlines (concat (map (\<lambda>l. filter (\<lambda>c. c \<noteq> LF) l @ [LF]) ls)) =
     map (filter (\<lambda>c. c \<noteq> LF)) ls"
proof -
  have "list_all (\<lambda>l. LF \<notin> set l) (map (filter (\<lambda>c. c \<noteq> LF)) ls)" by (simp add: list_all_iff)
  from getlines_lines [OF this] show ?thesis by (simp add: getlines_append_iff o_def)
qed

text \<open>
  \<^verbatim>\<open>loadFile\<close> returns a buffer only if the stream opened, its size fits 32 bits and every
  byte was read, and the buffer then holds exactly the bytes of the file; each failure
  raises the exception that names it.
\<close>

theorem load_file_exact:
  assumes "\<And>n bs. bytes_read f n = Some bs \<Longrightarrow> int (length bs) = n"
  shows "(load_file f path = Inr bs \<longleftrightarrow>
      opens f \<and> 0 \<le> end_position f \<and> end_position f < 2 ^ 32 \<and>
      bytes_read f (end_position f) = Some bs \<and> int (length bs) = end_position f) \<and>
    (load_file f path = Inl (Too_big path) \<longleftrightarrow> opens f \<and> 2 ^ 32 \<le> end_position f) \<and>
    (load_file f path = Inl (Cant_read path) \<longleftrightarrow> \<not> opens f)"
  using assms by (auto simp: load_file_def split: option.splits)

theorem load_file_exact_witness:
  "load_file \<lparr>opens = True, end_position = 2, bytes_read = (\<lambda>n. if n = 2 then Some [7, 8] else None)\<rparr>
     ''ca.pem'' = Inr [7, 8]"
proof -
  let ?f = "\<lparr>opens = True, end_position = 2,
      bytes_read = (\<lambda>n. if n = 2 then Some [7, 8] else None)\<rparr>"
  have "\<And>n bs. bytes_read ?f n = Some bs \<Longrightarrow> int (length bs) = n"
    by (auto split: if_splits)
  from load_file_exact [of ?f "''ca.pem''" "[7, 8]", OF this] show ?thesis by simp
qed

end
