(* ===== verification/Http_Programs.thy ===== *)
theory Http_Programs
  imports Dht_Http Program_Run
begin

section \<open>The HTTP tools as programs (cpp/opendht/http.cpp, http\_errors.cpp, https\_2waystls.cpp)\<close>

text \<open>
  The three \<^verbatim>\<open>main\<close> functions: the command line, the calls on the request object, and the loop, which runs handlers
  until a callback stops it. What the library reports is a list of events; when it runs out and nothing has
  stopped the loop, the work guard keeps it waiting (\<open>Hangs\<close>).
\<close>

datatype http_line =
    Usage
  | Log log_line
  | Key_text string
  | Certificate_text string

subsection \<open>The loop\<close>

fun until_stopped :: "(http_client \<Rightarrow> http_event \<Rightarrow> http_client) \<Rightarrow> http_client \<Rightarrow> http_event list \<Rightarrow> http_client"
  where
  "until_stopped step c [] = c"
| "until_stopped step c (e # es) = (if stopped c then c else until_stopped step (step c e) es)"

definition run_loop ::
  "(http_client \<Rightarrow> http_event \<Rightarrow> http_client) \<Rightarrow> http_event list \<Rightarrow> (http_line, int) run" where
  "run_loop step es =
     (let c = until_stopped step new_http_client es in
      (map Log (log c), if stopped c then Returns 0 else Hangs))"

text \<open>The callbacks that the other two programs register; a report without a callback changes nothing.\<close>

fun errors_step :: "http_client \<Rightarrow> http_event \<Rightarrow> http_client" where
  "errors_step c (State_change st resp) = on_state_change_errors st resp c"
| "errors_step c e = c"

fun tls_step :: "http_client \<Rightarrow> http_event \<Rightarrow> http_client" where
  "tls_step c (State_change st resp) = on_state_change_tls st resp c"
| "tls_step c (Status_code code) = on_status code c"
| "tls_step c (Body_part chunk) = c"

subsection \<open>main\<close>

text \<open>
  What reaches the network with the run of the process: the URL and the calls on the request. \<^verbatim>\<open>argv[2]\<close>
  of \<^verbatim>\<open>http.cpp\<close> is a null pointer if there is one argument.
\<close>

definition http_main ::
  "(string \<Rightarrow> string + string option) \<Rightarrow> http_event list \<Rightarrow> string list \<Rightarrow>
     (string \<times> request_call list) option \<times> (http_line, int) run" where
  "http_main parse es argv =
     (if length argv < 2 then (None, ([Usage], Returns 1))
      else
        let url = argv ! 1;
            content = (if length argv > 2 then argv ! 2 else []) in
        (Some (url, http_request url content), run_loop (http_step parse) es))"

text \<open>\<^verbatim>\<open>http_errors.cpp\<close> does not test \<^verbatim>\<open>argc\<close>: without an argument a string is made of a null pointer.\<close>

definition http_errors_main ::
  "http_event list \<Rightarrow> string list \<Rightarrow> (string \<times> request_call list) option \<times> (http_line, int) run" where
  "http_errors_main es argv =
     (if length argv < 2 then (None, ([Usage], Undefined_behaviour))
      else (Some (http_errors_request (argv ! 1)), then_run (print_lines [Usage]) (\<lambda>_. run_loop errors_step es)))"

text \<open>
  \<^verbatim>\<open>https_2waystls.cpp\<close>. The library reads a private key under a password and a certificate
  from bytes, and shows both; a failure is an exception, which nothing catches.
\<close>

datatype ('k, 'c) tls_call =
    Call request_call
  | Set_identity 'k 'c
  | Set_certificate_authority 'c

record ('k, 'c) tls_lib =
  file_at :: "string \<Rightarrow> file_answers"
  private_key :: "u8 list \<Rightarrow> string \<Rightarrow> 'k option"
  certificate :: "u8 list \<Rightarrow> 'c option"
  serialize :: "'k \<Rightarrow> string \<Rightarrow> string option"
  chain_text :: "'c \<Rightarrow> string"

definition or_terminate :: "'a option \<Rightarrow> ('l, 'a) run" where
  "or_terminate r = ([], case r of None \<Rightarrow> Terminates | Some x \<Rightarrow> Returns x)"

definition load_run :: "('k, 'c) tls_lib \<Rightarrow> string \<Rightarrow> (http_line, u8 list) run" where
  "load_run lib path =
     ([], case load_file (file_at lib path) path of Inl e \<Rightarrow> Terminates | Inr bs \<Rightarrow> Returns bs)"

definition tls_request :: "request_call list" where
  "tls_request =
     [Set_method_get, Set_target ''/'', Set_field Host ''127.0.0.1:8080'',
      Set_field User_agent ''RESTinio client'', Set_field Accept ''*/*'',
      Set_field Content_type ''application/json'']"

text \<open>The identity and the authority, in the order of the source; the key and the certificate are shown in between.\<close>

definition tls_setup ::
  "('k, 'c) tls_lib \<Rightarrow> string list \<Rightarrow> (http_line, ('k, 'c) tls_call list) run" where
  "tls_setup lib argv =
     then_run (load_run lib (argv ! 1)) (\<lambda>key_bytes.
     then_run (or_terminate (private_key lib key_bytes ''xxxx'')) (\<lambda>key.
     then_run (load_run lib (argv ! 2)) (\<lambda>cert_bytes.
     then_run (or_terminate (certificate lib cert_bytes)) (\<lambda>cert.
     then_run (or_terminate (serialize lib key [])) (\<lambda>blob.
     then_run (print_lines [Key_text blob, Certificate_text (chain_text lib cert)]) (\<lambda>_.
     then_run (load_run lib (argv ! 3)) (\<lambda>ca_bytes.
     then_run (or_terminate (certificate lib ca_bytes)) (\<lambda>ca.
       ([], Returns (map Call tls_request @ [Set_identity key cert, Set_certificate_authority ca]))))))))))"

definition tls_main :: "('k, 'c) tls_lib \<Rightarrow> http_event list \<Rightarrow> string list \<Rightarrow> (http_line, int) run" where
  "tls_main lib es argv =
     (if length argv < 4 then ([Usage], Returns 1)
      else then_run (tls_setup lib argv) (\<lambda>calls. run_loop tls_step es))"

subsection \<open>Laws\<close>

lemma until_stopped_iff:
  assumes "\<And>c e. stopped (step c e) = (stopped c \<or> (\<exists>resp. e = State_change Finished resp))"
  shows "stopped (until_stopped step c es) = (stopped c \<or> (\<exists>resp. State_change Finished resp \<in> set es))"
  by (induction es arbitrary: c) (auto simp: assms)

lemma steps_stop:
  "stopped (http_step parse c e) = (stopped c \<or> (\<exists>resp. e = State_change Finished resp))"
  "stopped (errors_step c e) = (stopped c \<or> (\<exists>resp. e = State_change Finished resp))"
  "stopped (tls_step c e) = (stopped c \<or> (\<exists>resp. e = State_change Finished resp))"
  by (cases e; auto simp: on_state_change_def on_state_change_errors_def on_state_change_tls_def say_def
      on_body_def on_status_def Let_def)+

definition finishes :: "http_event list \<Rightarrow> bool" where
  "finishes es = list_ex (\<lambda>e. case e of State_change st resp \<Rightarrow> st = Finished | _ \<Rightarrow> False) es"

lemma finishes_iff: "finishes es \<longleftrightarrow> (\<exists>resp. State_change Finished resp \<in> set es)"
  unfolding finishes_def by (induction es) (auto split: http_event.splits)

lemma loop_outcomes:
  "snd (run_loop (http_step parse) es) = (if finishes es then Returns 0 else Hangs)"
  "snd (run_loop errors_step es) = (if finishes es then Returns 0 else Hangs)"
  "snd (run_loop tls_step es) = (if finishes es then Returns 0 else Hangs)"
  using until_stopped_iff [of "http_step parse", OF steps_stop(1)]
    until_stopped_iff [OF steps_stop(2)] until_stopped_iff [OF steps_stop(3)]
  by (simp_all add: run_loop_def Let_def finishes_iff new_http_client_def)

lemma setup_steps:
  "snd (tls_setup lib argv) = Returns calls \<longleftrightarrow>
     (\<exists>kb key cb cert blob ab ca.
        load_file (file_at lib (argv ! 1)) (argv ! 1) = Inr kb \<and> private_key lib kb ''xxxx'' = Some key \<and>
        load_file (file_at lib (argv ! 2)) (argv ! 2) = Inr cb \<and> certificate lib cb = Some cert \<and>
        serialize lib key [] = Some blob \<and>
        load_file (file_at lib (argv ! 3)) (argv ! 3) = Inr ab \<and> certificate lib ab = Some ca \<and>
        calls = map Call tls_request @ [Set_identity key cert, Set_certificate_authority ca])"
  unfolding tls_setup_def load_run_def or_terminate_def then_run_Returns_iff snd_print_lines
  by (force split: sum.splits option.splits)

text \<open>The key is on the output as soon as the first two files are read.\<close>

definition identity_loaded :: "('k, 'c) tls_lib \<Rightarrow> string list \<Rightarrow> string \<Rightarrow> bool" where
  "identity_loaded lib argv blob =
     (\<exists>kb key cb cert.
        load_file (file_at lib (argv ! 1)) (argv ! 1) = Inr kb \<and> private_key lib kb ''xxxx'' = Some key \<and>
        load_file (file_at lib (argv ! 2)) (argv ! 2) = Inr cb \<and> certificate lib cb = Some cert \<and>
        serialize lib key [] = Some blob)"

lemma fst_silent [simp]: "fst (load_run lib path) = []" "fst (or_terminate r) = []"
  by (simp_all add: load_run_def or_terminate_def)

lemma load_run_Returns [simp]:
  "snd (load_run lib path) = Returns bs \<longleftrightarrow> load_file (file_at lib path) path = Inr bs"
  by (simp add: load_run_def split: sum.splits)

lemma or_terminate_Returns [simp]: "snd (or_terminate r) = Returns x \<longleftrightarrow> r = Some x"
  by (simp add: or_terminate_def split: option.splits)

lemma setup_shows_key: "Key_text blob \<in> set (fst (tls_setup lib argv)) \<longleftrightarrow> identity_loaded lib argv blob"
  unfolding tls_setup_def then_run_ls identity_loaded_def fst_silent load_run_Returns or_terminate_Returns
    fst_print_lines snd_print_lines
  by auto

lemma loop_no_key: "Key_text blob \<notin> set (fst (run_loop step es))"
  by (auto simp: run_loop_def Let_def)

section \<open>Properties\<close>

text \<open>
  Exit statuses of the HTTP tools: \<open>http.cpp\<close> and \<open>https_2waystls.cpp\<close> return 1 without enough arguments,
  \<open>http_errors.cpp\<close> has undefined behaviour then; otherwise each returns 0 if and only if the library reports the end of
  the request, whatever the status of the response; the first two otherwise wait for ever, and the TLS client returns
  0 only if the two files of the identity and the authority were read as well.
\<close>

theorem http_programs_exit:
  "snd (snd (http_main parse es argv)) =
     (if length argv < 2 then Returns 1 else if finishes es then Returns 0 else Hangs) \<and>
   snd (snd (http_errors_main es argv)) =
     (if length argv < 2 then Undefined_behaviour else if finishes es then Returns 0 else Hangs) \<and>
   (snd (tls_main lib es argv) = Returns 0) =
     (4 \<le> length argv \<and> finishes es \<and> (\<exists>calls. snd (tls_setup lib argv) = Returns calls)) \<and>
   (snd (tls_main lib es argv) = Returns 1) = (length argv < 4)"
  by (auto simp: http_main_def http_errors_main_def tls_main_def Let_def loop_outcomes then_run_Returns_iff
      split: if_splits)

text \<open>
  The TLS client prints its private key, serialised under the empty password, on the standard output: exactly if
  key and certificate were read, also when the authority cannot be read and no request is sent.
\<close>

theorem tls_key_printed:
  "(Key_text blob \<in> set (fst (tls_main lib es argv))) = (4 \<le> length argv \<and> identity_loaded lib argv blob)"
  using setup_shows_key [of blob lib argv] loop_no_key [of blob tls_step es]
  by (auto simp: tls_main_def then_run_ls)

end
