(* ===== verification/Dht_Proxy.thy ===== *)
theory Dht_Proxy
  imports Event_Machine Cpp_Std
begin

section \<open>The DHT proxy server (cpp/opendht/dhtproxyserver/proxy\_restinio.cpp)\<close>

text \<open>
  The class \<^verbatim>\<open>DhtProxyServer\<close>: its router, its four request handlers, the callbacks they leave with
  the DHT node, the cached node information, the life of its thread. OpenDHT, JSON and
  RESTinio are libraries: the record \<open>dht_lib\<close> holds what the handlers compute with them. A
  request is answered through the response builder; everything put on the wire is recorded with
  the number of the request.
\<close>

subsection \<open>Libraries\<close>

record ('h, 'v, 'j, 'n) dht_lib =
  hash_of_string :: "string \<Rightarrow> 'h"
  hash_nonzero :: "'h \<Rightarrow> bool"
  hash_get :: "string \<Rightarrow> 'h"
  parse_json :: "string \<Rightarrow> 'j option"
  is_member :: "'j \<Rightarrow> string \<Rightarrow> bool option"
  value_of_json :: "'j \<Rightarrow> 'v option"
  write_value :: "'v \<Rightarrow> string"
  write_info :: "'n \<Rightarrow> string \<Rightarrow> string"
  good_nodes_ipv4 :: "'n \<Rightarrow> nat"
  good_nodes_ipv6 :: "'n \<Rightarrow> nat"
  path_match :: "string \<Rightarrow> string \<Rightarrow> string option"

text \<open>
  \<open>None\<close> is an exception: the accessors of a JSON value throw when it is of another type than they need, for instance
  \<^verbatim>\<open>isMember\<close>, and the constructor of \<^verbatim>\<open>dht::Value\<close>, on a value that is no object.
\<close>

subsection \<open>Requests and replies\<close>

datatype http_method = Options | Get | Post | Other_method string

record http_req =
  req_method :: http_method
  req_target :: string
  req_body :: string
  remote_address :: string

type_synonym fields = "(string \<times> string) list"

datatype reply =
    Reply nat fields string
  | Flushed fields
  | Chunk string
  | Finished

text \<open>\<^verbatim>\<open>initHttpResponse\<close>: the fields every response starts with.\<close>

definition init_http_response :: fields where
  "init_http_response =
     [(''Server'', ''RESTinio''), (''Content-Type'', ''application/json''),
      (''Access-Control-Allow-Origin'', ''*''), (''Connection'', ''keep-alive'')]"

definition resp_msg_missing_params :: string where
  "resp_msg_missing_params = ''{'' @ CHR 0x22 # ''err'' @ CHR 0x22 # '':'' @
     CHR 0x22 # ''Missing parameters'' @ CHR 0x22 # ''}''"

definition resp_msg_put_failed :: string where
  "resp_msg_put_failed = ''{'' @ CHR 0x22 # ''err'' @ CHR 0x22 # '':'' @
     CHR 0x22 # ''Put failed'' @ CHR 0x22 # ''}''"

subsection \<open>State\<close>

text \<open>
  \<open>gets\<close> and \<open>puts\<close> hold the operations handed to the DHT node and not finished, with the number
  of the request; requests are numbered in the order they arrive. \<open>threw\<close> holds the requests whose handler was left by an
  exception, which goes to RESTinio.
\<close>

record ('h, 'v, 'n) proxy =
  request_count :: "64 word"
  node_info :: 'n
  gets :: "(nat \<times> 'h) list"
  puts :: "(nat \<times> 'h \<times> 'v \<times> bool) list"
  next_req :: nat
  threw :: "nat list"
  wire :: "(nat \<times> reply) list"

definition send :: "nat \<Rightarrow> reply list \<Rightarrow> ('h, 'v, 'n) proxy \<Rightarrow> ('h, 'v, 'n) proxy" where
  "send i rs s = s\<lparr>wire := wire s @ map (Pair i) rs\<rparr>"

subsection \<open>Handlers\<close>

text \<open>The two lines that begin \<^verbatim>\<open>get\<close> and \<^verbatim>\<open>put\<close>: a hexadecimal hash, or the hash of the text.\<close>

definition info_hash :: "('h, 'v, 'j, 'n) dht_lib \<Rightarrow> string \<Rightarrow> 'h" where
  "info_hash lib s =
     (let h = hash_of_string lib s in if \<not> hash_nonzero lib h then hash_get lib s else h)"

definition allow_methods :: "bool \<Rightarrow> string" where
  "allow_methods identity =
     (if identity then ''OPTIONS, GET, POST, LISTEN, SIGN, ENCRYPT''
      else ''OPTIONS, GET, POST, LISTEN'')"

definition options :: "bool \<Rightarrow> nat \<Rightarrow> ('h, 'v, 'n) proxy \<Rightarrow> ('h, 'v, 'n) proxy" where
  "options identity i s =
     send i [Reply 200 (init_http_response @
         [(''Access-Control-Allow-Methods'', allow_methods identity),
          (''Access-Control-Allow-Headers'', ''content-type''),
          (''Access-Control-Max-Age'', ''86400'')]) []]
       (s\<lparr>request_count := request_count s + 1\<rparr>)"

text \<open>\<open>current\<close> is what \<^verbatim>\<open>dhtNode->getNodeInfo()\<close> would return at this moment.\<close>

definition get_node_info ::
  "('h, 'v, 'j, 'n) dht_lib \<Rightarrow> 'n \<Rightarrow> nat \<Rightarrow> string \<Rightarrow> ('h, 'v, 'n) proxy \<Rightarrow> ('h, 'v, 'n) proxy" where
  "get_node_info lib current i address s =
     (let s1 = (if good_nodes_ipv4 lib (node_info s) = 0 \<and> good_nodes_ipv6 lib (node_info s) = 0
                then s\<lparr>node_info := current\<rparr> else s)
      in send i [Reply 200 init_http_response (write_info lib (node_info s1) address @ [LF])] s1)"

definition get :: "('h, 'v, 'j, 'n) dht_lib \<Rightarrow> nat \<Rightarrow> string \<Rightarrow> ('h, 'v, 'n) proxy \<Rightarrow> ('h, 'v, 'n) proxy"
  where
  "get lib i hash s =
     (let s1 = send i [Flushed init_http_response] s in
      s1\<lparr>gets := gets s1 @ [(i, info_hash lib hash)]\<rparr>)"

definition put ::
  "('h, 'v, 'j, 'n) dht_lib \<Rightarrow> nat \<Rightarrow> string \<Rightarrow> string \<Rightarrow> ('h, 'v, 'n) proxy \<Rightarrow> ('h, 'v, 'n) proxy" where
  "put lib i hash body s =
     (if body = [] then send i [Reply 400 init_http_response resp_msg_missing_params] s
      else case parse_json lib body of
          None \<Rightarrow> s
        | Some root \<Rightarrow>
            (case value_of_json lib root of
               None \<Rightarrow> s\<lparr>threw := threw s @ [i]\<rparr>
             | Some v \<Rightarrow>
                 (case is_member lib root ''permanent'' of
                    None \<Rightarrow> s\<lparr>threw := threw s @ [i]\<rparr>
                  | Some permanent \<Rightarrow> s\<lparr>puts := puts s @ [(i, info_hash lib hash, v, permanent)]\<rparr>)))"

text \<open>The value that a body makes \<^verbatim>\<open>put\<close> hand to the node, and whether it is permanent.\<close>

definition accepted_put :: "('h, 'v, 'j, 'n) dht_lib \<Rightarrow> string \<Rightarrow> ('v \<times> bool) option" where
  "accepted_put lib body =
     Option.bind (parse_json lib body) (\<lambda>root.
     Option.bind (value_of_json lib root) (\<lambda>v.
       map_option (Pair v) (is_member lib root ''permanent'')))"

lemma put_alt:
  "body \<noteq> [] \<Longrightarrow> \<exists>ts. put lib i hash body s =
     (case accepted_put lib body of
        None \<Rightarrow> s\<lparr>threw := ts\<rparr>
      | Some (v, permanent) \<Rightarrow> s\<lparr>puts := puts s @ [(i, info_hash lib hash, v, permanent)]\<rparr>)"
  by (auto simp: put_def accepted_put_def split: option.splits intro: exI [of _ "threw s"])

text \<open>The callbacks of \<^verbatim>\<open>get\<close> (one value; the end) and of \<^verbatim>\<open>put\<close>.\<close>

definition on_value :: "('h, 'v, 'j, 'n) dht_lib \<Rightarrow> nat \<Rightarrow> 'v \<Rightarrow> ('h, 'v, 'n) proxy \<Rightarrow> ('h, 'v, 'n) proxy"
  where
  "on_value lib i v s = send i [Chunk (write_value lib v @ [LF])] s"

definition on_get_done :: "nat \<Rightarrow> ('h, 'v, 'n) proxy \<Rightarrow> ('h, 'v, 'n) proxy" where
  "on_get_done i s = send i [Finished] (s\<lparr>gets := filter (\<lambda>g. fst g \<noteq> i) (gets s)\<rparr>)"

definition on_put_done ::
  "('h, 'v, 'j, 'n) dht_lib \<Rightarrow> nat \<Rightarrow> bool \<Rightarrow> ('h, 'v, 'n) proxy \<Rightarrow> ('h, 'v, 'n) proxy" where
  "on_put_done lib i success s =
     (case map_of (puts s) i of None \<Rightarrow> s
      | Some (h, v, permanent) \<Rightarrow>
          send i [if success then Reply 200 init_http_response (write_value lib v @ [LF])
                  else Reply 502 init_http_response resp_msg_put_failed]
            (s\<lparr>puts := filter (\<lambda>p. fst p \<noteq> i) (puts s)\<rparr>))"

subsection \<open>The router\<close>

datatype route = Route_options | Route_node_info | Route_get | Route_put

definition rest_router :: "(http_method \<times> string \<times> route) list" where
  "rest_router =
     [(Options, ''/'', Route_options), (Get, ''/'', Route_node_info),
      (Get, ''/:hash'', Route_get), (Post, ''/:hash'', Route_put)]"

text \<open>
  The first route of the request's method whose pattern matches the target; \<open>path_match\<close> gives the
  value of the parameter. A request that no route takes is answered by the library.
\<close>

fun route_of ::
  "('h, 'v, 'j, 'n) dht_lib \<Rightarrow> http_req \<Rightarrow> (http_method \<times> string \<times> route) list \<Rightarrow>
     (route \<times> string) option" where
  "route_of lib r [] = None"
| "route_of lib r ((m, pat, rt) # rts) =
     (case (if m = req_method r then path_match lib pat (req_target r) else None) of
        Some p \<Rightarrow> Some (rt, p)
      | None \<Rightarrow> route_of lib r rts)"

definition handle ::
  "('h, 'v, 'j, 'n) dht_lib \<Rightarrow> bool \<Rightarrow> 'n \<Rightarrow> http_req \<Rightarrow> ('h, 'v, 'n) proxy \<Rightarrow> ('h, 'v, 'n) proxy" where
  "handle lib identity current r s =
     (let i = next_req s; s1 = s\<lparr>next_req := Suc i\<rparr> in
      case route_of lib r rest_router of
        None \<Rightarrow> s1
      | Some (Route_options, p) \<Rightarrow> options identity i s1
      | Some (Route_node_info, p) \<Rightarrow> get_node_info lib current i (remote_address r) s1
      | Some (Route_get, p) \<Rightarrow> get lib i p s1
      | Some (Route_put, p) \<Rightarrow> put lib i p (req_body r) s1)"

datatype ('v, 'n) proxy_event =
    Request http_req 'n
  | Value nat 'v
  | Get_done nat
  | Put_done nat bool

fun proxy_step ::
  "('h, 'v, 'j, 'n) dht_lib \<Rightarrow> bool \<Rightarrow> ('h, 'v, 'n) proxy \<Rightarrow> ('v, 'n) proxy_event \<Rightarrow> ('h, 'v, 'n) proxy"
  where
  "proxy_step lib identity s (Request r current) = handle lib identity current r s"
| "proxy_step lib identity s (Value i v) = on_value lib i v s"
| "proxy_step lib identity s (Get_done i) = on_get_done i s"
| "proxy_step lib identity s (Put_done i success) = on_put_done lib i success s"

text \<open>
  What the DHT node promises: it calls back only for an operation that was handed to it and has
  not finished.
\<close>

fun proxy_ok :: "('h, 'v, 'n) proxy \<Rightarrow> ('v, 'n) proxy_event \<Rightarrow> bool" where
  "proxy_ok s (Request r current) \<longleftrightarrow> True"
| "proxy_ok s (Value i v) \<longleftrightarrow> i \<in> fst ` set (gets s)"
| "proxy_ok s (Get_done i) \<longleftrightarrow> i \<in> fst ` set (gets s)"
| "proxy_ok s (Put_done i success) \<longleftrightarrow> i \<in> fst ` set (puts s)"

definition new_proxy :: "'n \<Rightarrow> ('h, 'v, 'n) proxy" where
  "new_proxy empty_info =
     \<lparr>request_count = 0, node_info = empty_info, gets = [], puts = [], next_req = 0, threw = [], wire = []\<rparr>"

subsection \<open>The server thread\<close>

text \<open>\<^verbatim>\<open>hardware_concurrency()\<close> is \<^verbatim>\<open>unsigned\<close> and may be 0.\<close>

definition rest_threads :: "u32 \<Rightarrow> u32" where
  "rest_threads hardware_concurrency =
     (let max_threads = hardware_concurrency - 1 in if max_threads > 1 then max_threads else 1)"

record server_life =
  joinable :: bool
  http_open :: bool
  thread_joins :: nat
  node_joins :: nat

definition stop :: "server_life \<Rightarrow> server_life" where
  "stop l =
     (let l1 = l\<lparr>http_open := False\<rparr> in
      if joinable l1
      then l1\<lparr>joinable := False, thread_joins := Suc (thread_joins l1),
              node_joins := Suc (node_joins l1)\<rparr>
      else l1)"

definition started :: server_life where
  "started = \<lparr>joinable = True, http_open = True, thread_joins = 0, node_joins = 0\<rparr>"

text \<open>Stopping twice, as the destructor does after \<^verbatim>\<open>stop\<close>, joins the thread and the node once.\<close>

lemma stop_stop: "stop (stop l) = stop l"
  by (simp add: stop_def Let_def)

lemma stop_started: "thread_joins (stop started) = 1 \<and> node_joins (stop started) = 1"
  by (simp add: stop_def started_def Let_def)

section \<open>What a client sees\<close>

definition transcript :: "nat \<Rightarrow> ('h, 'v, 'n) proxy \<Rightarrow> reply list" where
  "transcript i s = map snd (filter (\<lambda>w. fst w = i) (wire s))"

definition getting :: "('h, 'v, 'n) proxy \<Rightarrow> nat set" where
  "getting s = fst ` set (gets s)"

definition putting :: "('h, 'v, 'n) proxy \<Rightarrow> nat set" where
  "putting s = fst ` set (puts s)"

fun streaming :: "reply list \<Rightarrow> bool" where
  "streaming (Flushed f # rs) = (\<forall>r \<in> set rs. \<exists>c. r = Chunk c)"
| "streaming rs = False"

text \<open>A finished exchange: no answer, one complete answer, or a stream that was ended.\<close>

fun answered :: "reply list \<Rightarrow> bool" where
  "answered [] = True"
| "answered [Reply c f b] = True"
| "answered rs = (last rs = Finished \<and> streaming (butlast rs))"

definition phase_ok :: "('h, 'v, 'n) proxy \<Rightarrow> nat \<Rightarrow> bool" where
  "phase_ok s i =
     (if next_req s \<le> i \<or> i \<in> putting s then transcript i s = []
      else if i \<in> getting s then streaming (transcript i s)
      else answered (transcript i s))"

definition proxy_inv :: "('h, 'v, 'n) proxy \<Rightarrow> bool" where
  "proxy_inv s \<longleftrightarrow> distinct (map fst (gets s)) \<and> distinct (map fst (puts s)) \<and>
     getting s \<inter> putting s = {} \<and> (\<forall>i \<in> getting s \<union> putting s. i < next_req s) \<and>
     (\<forall>i. phase_ok s i)"

lemma transcript_send [simp]:
  "transcript i (send j rs s) = transcript i s @ (if i = j then rs else [])"
proof -
  have "map snd (filter (\<lambda>w. fst w = i) (map (Pair j) rs)) = (if i = j then rs else [])"
    by (induction rs) auto
  then show ?thesis by (simp add: transcript_def send_def)
qed

lemma transcript_update [simp]:
  "transcript i (s\<lparr>request_count := c\<rparr>) = transcript i s"
  "transcript i (s\<lparr>node_info := n\<rparr>) = transcript i s"
  "transcript i (s\<lparr>gets := g\<rparr>) = transcript i s"
  "transcript i (s\<lparr>puts := p\<rparr>) = transcript i s"
  "transcript i (s\<lparr>next_req := k\<rparr>) = transcript i s"
  "transcript i (s\<lparr>threw := h\<rparr>) = transcript i s"
  by (simp_all add: transcript_def)

lemma send_fields [simp]:
  "gets (send j rs s) = gets s" "puts (send j rs s) = puts s"
  "next_req (send j rs s) = next_req s" "node_info (send j rs s) = node_info s"
  "request_count (send j rs s) = request_count s"
  by (simp_all add: send_def)

lemmas proxy_sets = getting_def putting_def

lemma streaming_append [simp]: "streaming t \<Longrightarrow> streaming (t @ [Chunk c])"
  by (cases t rule: streaming.cases) auto

lemma answered_finished [simp]: "streaming t \<Longrightarrow> answered (t @ [Finished])"
proof (cases t rule: streaming.cases)
  case (1 f rs)
  moreover assume "streaming t"
  ultimately show ?thesis by (cases rs) auto
qed auto

declare options_def [step_defs] get_node_info_def [step_defs] get_def [step_defs] put_def [step_defs]
  on_value_def [step_defs] on_get_done_def [step_defs]

subsection \<open>Every event keeps the invariant\<close>

lemma getting_less: "proxy_inv s \<Longrightarrow> i \<in> getting s \<Longrightarrow> i < next_req s"
  and putting_less: "proxy_inv s \<Longrightarrow> i \<in> putting s \<Longrightarrow> i < next_req s"
  by (auto simp: proxy_inv_def)

lemma phase_of: "proxy_inv s \<Longrightarrow> phase_ok s i"
  by (simp add: proxy_inv_def)

lemma fresh_transcript: "proxy_inv s \<Longrightarrow> next_req s \<le> i \<Longrightarrow> transcript i s = []"
  using phase_of [of s i] by (simp add: phase_ok_def)

lemma inv_answer:
  assumes "proxy_inv s" and "answered rs" and "gets t = gets s" and "puts t = puts s"
    and "next_req t = Suc (next_req s)"
    and "\<And>i. transcript i t = transcript i s @ (if i = next_req s then rs else [])"
  shows "proxy_inv t"
proof -
  have same: "getting t = getting s" "putting t = putting s"
    using assms(3,4) by (auto simp: proxy_sets)
  have "phase_ok t i" for i
    using phase_of [OF assms(1), of i] fresh_transcript [OF assms(1), of i] assms(2)
      getting_less [OF assms(1), of i] putting_less [OF assms(1), of i]
    by (cases "i = next_req s") (auto simp: phase_ok_def same assms(5,6))
  then show ?thesis
    using assms(1) by (auto simp: proxy_inv_def same assms(3-5) less_SucI)
qed

lemma inv_get:
  assumes "proxy_inv s" and "gets t = gets s @ [(next_req s, h)]" and "puts t = puts s"
    and "next_req t = Suc (next_req s)"
    and "\<And>i. transcript i t = transcript i s @ (if i = next_req s then [Flushed f] else [])"
  shows "proxy_inv t"
proof -
  have sets: "getting t = insert (next_req s) (getting s)" "putting t = putting s"
    using assms(2,3) by (auto simp: proxy_sets)
  have fresh: "next_req s \<notin> getting s" "next_req s \<notin> putting s"
    using getting_less [OF assms(1)] putting_less [OF assms(1)] by blast+
  have "phase_ok t i" for i
    using phase_of [OF assms(1), of i] fresh_transcript [OF assms(1), of i] fresh
    by (cases "i = next_req s") (auto simp: phase_ok_def sets assms(4,5))
  moreover have "distinct (map fst (gets t))"
    using assms(1,2) fresh by (auto simp: proxy_inv_def getting_def)
  ultimately show ?thesis
    using assms(1) fresh by (auto simp: proxy_inv_def sets assms(3,4) less_SucI)
qed

lemma inv_put:
  assumes "proxy_inv s" and "puts t = puts s @ [(next_req s, h)]" and "gets t = gets s"
    and "next_req t = Suc (next_req s)" and "\<And>i. transcript i t = transcript i s"
  shows "proxy_inv t"
proof -
  have sets: "putting t = insert (next_req s) (putting s)" "getting t = getting s"
    using assms(2,3) by (auto simp: proxy_sets)
  have fresh: "next_req s \<notin> getting s" "next_req s \<notin> putting s"
    using getting_less [OF assms(1)] putting_less [OF assms(1)] by blast+
  have "phase_ok t i" for i
    using phase_of [OF assms(1), of i] fresh_transcript [OF assms(1), of i] fresh
    by (cases "i = next_req s") (auto simp: phase_ok_def sets assms(4,5))
  moreover have "distinct (map fst (puts t))"
    using assms(1,2) fresh by (auto simp: proxy_inv_def putting_def)
  ultimately show ?thesis
    using assms(1) fresh by (auto simp: proxy_inv_def sets assms(3,4) less_SucI)
qed

lemma inv_reply:
  assumes "proxy_inv s" and "gets u = gets s" and "puts u = puts s"
    and "next_req u = Suc (next_req s)" and "\<And>i. transcript i u = transcript i s"
  shows "proxy_inv (send (next_req s) [Reply c f b] u)"
  by (rule inv_answer [OF assms(1), of "[Reply c f b]"]) (simp_all add: assms)

lemma handle_inv:
  assumes "proxy_inv s"
  shows "proxy_inv (handle lib identity current r s)"
proof (cases "route_of lib r rest_router")
  case None
  then show ?thesis
    by (intro inv_answer [OF assms, of "[]"]) (simp_all add: handle_def)
next
  case (Some q)
  obtain rt p where q: "q = (rt, p)" by (cases q)
  show ?thesis
  proof (cases rt)
    case Route_options
    then show ?thesis
      by (simp add: handle_def Some q options_def Let_def) (intro inv_reply [OF assms]; simp)
  next
    case Route_node_info
    then show ?thesis
      by (simp add: handle_def Some q get_node_info_def Let_def) (intro conjI impI inv_reply [OF assms]; simp)
  next
    case Route_get
    then show ?thesis
      by (intro inv_get [OF assms]) (simp_all add: handle_def Some q get_def Let_def)
  next
    case put_route: Route_put
    let ?s1 = "s\<lparr>next_req := Suc (next_req s)\<rparr>"
    have handled: "handle lib identity current r s = put lib (next_req s) p (req_body r) ?s1"
      by (simp add: handle_def Some q put_route Let_def)
    show ?thesis
    proof (cases "req_body r = []")
      case True
      then show ?thesis
        by (simp add: handled put_def) (intro inv_reply [OF assms]; simp)
    next
      case False
      then obtain ts where t: "handle lib identity current r s =
          (case accepted_put lib (req_body r) of
             None \<Rightarrow> ?s1\<lparr>threw := ts\<rparr>
           | Some (v, permanent) \<Rightarrow>
               ?s1\<lparr>puts := puts ?s1 @ [(next_req s, info_hash lib p, v, permanent)]\<rparr>)"
        using put_alt unfolding handled by blast
      show ?thesis
      proof (cases "accepted_put lib (req_body r)")
        case None
        then show ?thesis
          by (intro inv_answer [OF assms, of "[]"]) (simp_all add: t)
      next
        case (Some vp)
        then show ?thesis
          by (cases vp, intro inv_put [OF assms]) (simp_all add: t)
      qed
    qed
  qed
qed

lemma on_value_inv:
  assumes "proxy_inv s" and "i \<in> getting s"
  shows "proxy_inv (on_value lib i v s)"
proof -
  have "i \<notin> putting s" "i < next_req s" using assms by (auto simp: proxy_inv_def)
  moreover have same: "getting (on_value lib i v s) = getting s" "putting (on_value lib i v s) = putting s"
    by (simp_all add: on_value_def proxy_sets)
  ultimately have "phase_ok (on_value lib i v s) j" for j
    using phase_of [OF assms(1), of j] assms(2)
    by (cases "j = i") (auto simp: phase_ok_def same on_value_def)
  then show ?thesis
    using assms(1) by (auto simp: proxy_inv_def same) (simp_all add: on_value_def)
qed

lemma on_get_done_inv:
  assumes "proxy_inv s" and "i \<in> getting s"
  shows "proxy_inv (on_get_done i s)"
proof -
  have i: "i \<notin> putting s" "i < next_req s" using assms by (auto simp: proxy_inv_def)
  moreover have sets: "getting (on_get_done i s) = getting s - {i}"
    "putting (on_get_done i s) = putting s"
    by (auto simp: on_get_done_def proxy_sets)
  ultimately have "phase_ok (on_get_done i s) j" for j
    using phase_of [OF assms(1), of j] assms(2)
    by (cases "j = i") (auto simp: phase_ok_def sets on_get_done_def)
  moreover have "distinct (map fst (filter (\<lambda>g. fst g \<noteq> i) (gets s)))"
    using assms(1) by (simp add: proxy_inv_def distinct_map_filter)
  ultimately show ?thesis
    using assms(1) by (auto simp: proxy_inv_def sets) (simp_all add: on_get_done_def)
qed

lemma putting_lookup: "i \<in> putting s \<Longrightarrow> \<exists>h v p. map_of (puts s) i = Some (h, v, p)"
  using map_of_eq_None_iff [of "puts s" i] by (cases "map_of (puts s) i") (auto simp: putting_def)

definition put_reply :: "('h, 'v, 'j, 'n) dht_lib \<Rightarrow> 'v \<Rightarrow> bool \<Rightarrow> reply" where
  "put_reply lib v success =
     (if success then Reply 200 init_http_response (write_value lib v @ [LF])
      else Reply 502 init_http_response resp_msg_put_failed)"

lemma on_put_done_eq:
  "map_of (puts s) i = Some (h, v, p) \<Longrightarrow>
     on_put_done lib i success s =
       send i [put_reply lib v success] (s\<lparr>puts := filter (\<lambda>p. fst p \<noteq> i) (puts s)\<rparr>)"
  by (simp add: on_put_done_def put_reply_def)

lemma answered_put_reply [simp]: "answered [put_reply lib v success]"
  by (simp add: put_reply_def)

lemma on_put_done_inv:
  assumes "proxy_inv s" and "i \<in> putting s"
  shows "proxy_inv (on_put_done lib i success s)"
proof -
  obtain h v p where look: "map_of (puts s) i = Some (h, v, p)"
    using putting_lookup [OF assms(2)] by blast
  let ?t = "on_put_done lib i success s"
  have i: "i \<notin> getting s" "i < next_req s" using assms by (auto simp: proxy_inv_def)
  moreover have sets: "putting ?t = putting s - {i}" "getting ?t = getting s"
    by (auto simp: on_put_done_eq [OF look] proxy_sets)
  moreover have "transcript i s = []"
    using phase_of [OF assms(1), of i] assms(2) by (simp add: phase_ok_def)
  ultimately have "phase_ok ?t j" for j
    using phase_of [OF assms(1), of j] assms(2)
    by (cases "j = i") (auto simp: phase_ok_def on_put_done_eq [OF look] sets)
  moreover have "distinct (map fst (filter (\<lambda>g. fst g \<noteq> i) (puts s)))"
    using assms(1) by (simp add: proxy_inv_def distinct_map_filter)
  ultimately show ?thesis
    using assms(1) by (auto simp: proxy_inv_def sets) (simp_all add: on_put_done_eq [OF look])
qed

interpretation proxy: event_machine "proxy_step lib identity" proxy_ok proxy_inv
proof unfold_locales
  fix s :: "('a, 'b, 'd) proxy" and e
  assume "proxy_inv s" and "proxy_ok s e"
  then show "proxy_inv (proxy_step lib identity s e)"
    by (cases e) (simp_all add: handle_inv on_value_inv on_get_done_inv on_put_done_inv proxy_sets)
qed

lemma new_proxy_inv: "proxy_inv (new_proxy info)"
  by (simp add: proxy_inv_def new_proxy_def proxy_sets phase_ok_def transcript_def)

section \<open>Whole runs\<close>

lemma handle_next [simp]:
  "next_req (handle lib identity current r s) = Suc (next_req s)"
  by (auto simp: handle_def step_defs Let_def split: option.splits route.splits)

lemma next_req_mono: "next_req s \<le> next_req (proxy_step lib identity s e)"
  by (cases e) (auto simp: step_defs on_put_done_def split: option.splits)

text \<open>Requests that arrive later do not touch the exchange of an earlier one.\<close>

lemma handle_transcript:
  "i \<noteq> next_req s \<Longrightarrow> transcript i (handle lib identity current r s) = transcript i s"
  by (auto simp: handle_def step_defs Let_def split: option.splits route.splits)

lemma handle_gets:
  "i \<noteq> next_req s \<Longrightarrow>
     (i \<in> getting (handle lib identity current r s)) = (i \<in> getting s)"
  by (auto simp: handle_def step_defs Let_def proxy_sets
      split: option.splits route.splits)

lemma handle_puts:
  "i \<noteq> next_req s \<Longrightarrow>
     map_of (puts (handle lib identity current r s)) i = map_of (puts s) i"
  by (auto simp: handle_def step_defs Let_def map_add_def
      split: option.splits route.splits)

lemma map_of_filter_other: "i \<noteq> j \<Longrightarrow> map_of (filter (\<lambda>p. fst p \<noteq> j) xs) i = map_of xs i"
  by (induction xs) auto

lemma map_of_filter_self: "map_of (filter (\<lambda>p. fst p \<noteq> j) xs) j = None"
  by (induction xs) auto

lemma map_of_puts_None: "map_of (puts s) i = None \<longleftrightarrow> i \<notin> putting s"
  by (simp add: map_of_eq_None_iff putting_def)

subsection \<open>A closed exchange stays as it is\<close>

definition closed :: "nat \<Rightarrow> ('h, 'v, 'n) proxy \<Rightarrow> bool" where
  "closed i s \<longleftrightarrow> i < next_req s \<and> i \<notin> getting s \<and> i \<notin> putting s"

lemma closed_step:
  assumes "proxy_ok s e" and "closed i s"
  shows "closed i (proxy_step lib identity s e) \<and>
    transcript i (proxy_step lib identity s e) = transcript i s"
proof (cases e)
  case (Request r c)
  have "i \<noteq> next_req s" using assms(2) by (simp add: closed_def)
  then show ?thesis
    using assms(2) handle_puts [of i s lib identity c r] map_of_puts_None [of s i]
      map_of_puts_None [of "handle lib identity c r s" i]
    by (simp add: Request closed_def handle_transcript handle_gets)
next
  case (Value j v)
  then show ?thesis using assms by (auto simp: closed_def on_value_def proxy_sets)
next
  case (Get_done j)
  then show ?thesis using assms by (auto simp: closed_def on_get_done_def proxy_sets)
next
  case (Put_done j b)
  then show ?thesis using assms
    by (auto simp: closed_def on_put_done_def proxy_sets split: option.splits)
qed

lemma closed_run:
  assumes "legal_events proxy_ok (proxy_step lib identity) s es" and "closed i s"
  shows "transcript i (run_events (proxy_step lib identity) s es) = transcript i s"
  using assms
proof (induction es arbitrary: s)
  case (Cons e es)
  then show ?case using closed_step [of s e i lib identity] by simp
qed simp

subsection \<open>What the node's callbacks put on the wire\<close>

text \<open>The stream that the remaining events give an open \<^verbatim>\<open>get\<close>.\<close>

fun stream :: "('h, 'v, 'j, 'n) dht_lib \<Rightarrow> nat \<Rightarrow> ('v, 'n) proxy_event list \<Rightarrow> reply list" where
  "stream lib i [] = []"
| "stream lib i (Value j v # es) =
     (if j = i then [Chunk (write_value lib v @ [LF])] else []) @ stream lib i es"
| "stream lib i (Get_done j # es) = (if j = i then [Finished] else stream lib i es)"
| "stream lib i (e # es) = stream lib i es"

lemma get_run:
  assumes "legal_events proxy_ok (proxy_step lib identity) s es" and "proxy_inv s"
    and "i \<in> getting s"
  shows "transcript i (run_events (proxy_step lib identity) s es) = transcript i s @ stream lib i es"
  using assms
proof (induction es arbitrary: s)
  case (Cons e es)
  let ?t = "proxy_step lib identity s e"
  have inv: "proxy_inv ?t" using Cons.prems by (simp add: proxy.step_inv)
  have i: "i < next_req s" "i \<notin> putting s" using Cons.prems by (auto simp: proxy_inv_def)
  show ?case
  proof (cases e)
    case (Request r c)
    then show ?thesis using Cons inv i by (simp add: handle_transcript handle_gets)
  next
    case (Value j v)
    then show ?thesis using Cons inv by (auto simp: on_value_def proxy_sets)
  next
    case (Get_done j)
    show ?thesis
    proof (cases "j = i")
      case True
      then have "closed i ?t" using i by (auto simp: Get_done closed_def on_get_done_def proxy_sets)
      then have "transcript i (run_events (proxy_step lib identity) ?t es) = transcript i ?t"
        using Cons.prems by (intro closed_run) simp_all
      then show ?thesis by (simp add: Get_done True) (simp add: on_get_done_def)
    next
      case False
      then have "i \<in> getting ?t" "transcript i ?t = transcript i s"
        using Cons.prems(3) by (auto simp: Get_done on_get_done_def proxy_sets)
      then show ?thesis using Cons.prems(1) Cons.IH [OF _ inv] False by (simp add: Get_done)
    qed
  next
    case (Put_done j b)
    have "i \<noteq> j" using Cons.prems i by (auto simp: Put_done proxy_sets)
    then have "transcript i ?t = transcript i s" "getting ?t = getting s"
      by (auto simp: Put_done on_put_done_def proxy_sets split: option.splits)
    then show ?thesis using Cons inv by (simp add: Put_done)
  qed
qed simp

text \<open>The first verdict that the events hold for a \<^verbatim>\<open>put\<close>.\<close>

fun verdict :: "nat \<Rightarrow> ('v, 'n) proxy_event list \<Rightarrow> bool option" where
  "verdict i [] = None"
| "verdict i (Put_done j b # es) = (if j = i then Some b else verdict i es)"
| "verdict i (e # es) = verdict i es"

lemma put_run:
  assumes "legal_events proxy_ok (proxy_step lib identity) s es" and "proxy_inv s"
    and "map_of (puts s) i = Some (h, v, p)"
  shows "transcript i (run_events (proxy_step lib identity) s es) =
    (case verdict i es of None \<Rightarrow> [] | Some b \<Rightarrow> [put_reply lib v b])"
  using assms
proof (induction es arbitrary: s)
  case Nil
  then have "i \<in> putting s" using map_of_puts_None [of s i] by auto
  then show ?case using phase_of [OF Nil.prems(2), of i] by (simp add: phase_ok_def)
next
  case (Cons e es)
  let ?t = "proxy_step lib identity s e"
  have inv: "proxy_inv ?t" using Cons.prems by (simp add: proxy.step_inv)
  have put: "i \<in> putting s" using Cons.prems(3) map_of_puts_None [of s i] by auto
  have i: "i < next_req s" "i \<notin> getting s" using put Cons.prems by (auto simp: proxy_inv_def)
  show ?case
  proof (cases e)
    case (Request r c)
    then show ?thesis using Cons inv i by (simp add: handle_puts)
  next
    case (Value j v)
    then show ?thesis using Cons inv by (simp add: on_value_def)
  next
    case (Get_done j)
    then show ?thesis using Cons inv by (simp add: on_get_done_def)
  next
    case (Put_done j b)
    show ?thesis
    proof (cases "j = i")
      case True
      have t: "?t = send i [put_reply lib v b] (s\<lparr>puts := filter (\<lambda>p. fst p \<noteq> i) (puts s)\<rparr>)"
        using on_put_done_eq [OF Cons.prems(3)] by (simp add: Put_done True)
      have "closed i ?t" using i by (auto simp: t closed_def proxy_sets)
      then have "transcript i (run_events (proxy_step lib identity) ?t es) = transcript i ?t"
        using Cons.prems by (intro closed_run) simp_all
      moreover have "transcript i ?t = [put_reply lib v b]"
        using phase_of [OF Cons.prems(2), of i] put by (simp add: t phase_ok_def)
      ultimately show ?thesis by (simp add: Put_done True)
    next
      case False
      then have "map_of (puts ?t) i = map_of (puts s) i"
        by (auto simp: Put_done on_put_done_def map_of_filter_other split: option.splits)
      then show ?thesis using Cons inv False by (simp add: Put_done)
    qed
  qed
qed

subsection \<open>The state in which a request leaves the proxy\<close>

lemma legal_split:
  assumes "legal_events proxy_ok (proxy_step lib identity) (new_proxy info) (pre @ e # es)"
  defines "s \<equiv> run_events (proxy_step lib identity) (new_proxy info) pre"
  shows "proxy_inv s" "proxy_ok s e" "proxy_inv (proxy_step lib identity s e)"
    "legal_events proxy_ok (proxy_step lib identity) (proxy_step lib identity s e) es"
proof -
  show s: "proxy_inv s" unfolding s_def
    using assms(1) by (intro proxy.run_inv [OF new_proxy_inv]) (simp add: legal_events_append)
  show ok: "proxy_ok s e" using assms(1) by (simp add: legal_events_append s_def)
  show "proxy_inv (proxy_step lib identity s e)" by (rule proxy.step_inv [OF s ok])
  show "legal_events proxy_ok (proxy_step lib identity) (proxy_step lib identity s e) es"
    using assms(1) by (simp add: legal_events_append s_def)
qed

text \<open>Requests carry the numbers 0, 1, 2, \<open>\<dots>\<close> in the order of arrival.\<close>

fun requests :: "('v, 'n) proxy_event list \<Rightarrow> nat" where
  "requests [] = 0"
| "requests (Request r c # es) = Suc (requests es)"
| "requests (e # es) = requests es"

lemma next_req_run:
  "next_req (run_events (proxy_step lib identity) s es) = next_req s + requests es"
proof (induction es arbitrary: s)
  case (Cons e es)
  then show ?case
    by (cases e) (auto simp: on_value_def on_get_done_def on_put_done_def split: option.splits)
qed simp

lemma next_req_new: "next_req (run_events (proxy_step lib identity) (new_proxy info) es) = requests es"
  by (simp add: next_req_run new_proxy_def)

subsection \<open>The whole exchange of one request\<close>

lemma get_transcript:
  assumes "legal_events proxy_ok (proxy_step lib identity) (new_proxy info) (pre @ Request r c # es)"
    and "route_of lib r rest_router = Some (Route_get, hash)"
  shows "transcript (requests pre)
      (run_events (proxy_step lib identity) (new_proxy info) (pre @ Request r c # es)) =
    Flushed init_http_response # stream lib (requests pre) es"
proof -
  let ?s = "run_events (proxy_step lib identity) (new_proxy info) pre"
  let ?t = "proxy_step lib identity ?s (Request r c)"
  note split = legal_split [OF assms(1)]
  have "next_req ?s = requests pre" by (rule next_req_new)
  then have "requests pre \<in> getting ?t"
    and "transcript (requests pre) ?t = [Flushed init_http_response]"
    using assms(2) fresh_transcript [OF split(1), of "requests pre"]
    by (simp_all add: handle_def get_def Let_def proxy_sets)
  then show ?thesis
    using get_run [OF split(4) split(3)] by (simp add: run_events_append)
qed

lemma put_transcript:
  assumes "legal_events proxy_ok (proxy_step lib identity) (new_proxy info) (pre @ Request r c # es)"
    and "route_of lib r rest_router = Some (Route_put, hash)"
  shows "transcript (requests pre)
      (run_events (proxy_step lib identity) (new_proxy info) (pre @ Request r c # es)) =
    (if req_body r = [] then [Reply 400 init_http_response resp_msg_missing_params]
     else case accepted_put lib (req_body r) of
         None \<Rightarrow> []
       | Some (v, permanent) \<Rightarrow>
           (case verdict (requests pre) es of
              None \<Rightarrow> []
            | Some True \<Rightarrow> [Reply 200 init_http_response (write_value lib v @ [LF])]
            | Some False \<Rightarrow> [Reply 502 init_http_response resp_msg_put_failed]))"
proof -
  let ?i = "requests pre"
  let ?s = "run_events (proxy_step lib identity) (new_proxy info) pre"
  let ?t = "proxy_step lib identity ?s (Request r c)"
  let ?s1 = "?s\<lparr>next_req := Suc ?i\<rparr>"
  note split = legal_split [OF assms(1)]
  have next_i: "next_req ?s = ?i" by (rule next_req_new)
  have fresh: "?i \<notin> getting ?s" "?i \<notin> putting ?s" "transcript ?i ?s = []"
    using getting_less [OF split(1)] putting_less [OF split(1)] fresh_transcript [OF split(1)]
    by (auto simp: next_i)
  have t: "?t = put lib ?i hash (req_body r) ?s1"
    using assms(2) by (simp add: handle_def next_i Let_def)
  show ?thesis
  proof (cases "req_body r = []")
    case True
    then have "closed ?i ?t"
      and "transcript ?i ?t = [Reply 400 init_http_response resp_msg_missing_params]"
      using fresh by (simp_all add: t put_def closed_def proxy_sets del: proxy_step.simps)
    then show ?thesis using closed_run [OF split(4)] True by (simp add: run_events_append)
  next
    case False
    then obtain ts where put: "?t = (case accepted_put lib (req_body r) of
          None \<Rightarrow> ?s1\<lparr>threw := ts\<rparr>
        | Some (v, permanent) \<Rightarrow> ?s1\<lparr>puts := puts ?s1 @ [(?i, info_hash lib hash, v, permanent)]\<rparr>)"
      using put_alt unfolding t by blast
    show ?thesis
    proof (cases "accepted_put lib (req_body r)")
      case None
      then have "closed ?i ?t" and "transcript ?i ?t = []"
        using fresh by (simp_all add: put closed_def proxy_sets del: proxy_step.simps)
      then show ?thesis using closed_run [OF split(4)] None False by (simp add: run_events_append)
    next
      case (Some vp)
      obtain v permanent where vp: "vp = (v, permanent)" by (cases vp)
      then have "map_of (puts ?t) ?i = Some (info_hash lib hash, v, permanent)"
        using Some fresh map_of_puts_None [of ?s ?i]
        by (simp add: put map_add_def del: proxy_step.simps)
      from put_run [OF split(4) split(3) this] False Some show ?thesis
        by (auto simp: vp run_events_append put_reply_def split: option.splits bool.splits)
    qed
  qed
qed


subsection \<open>A small instance\<close>

definition demo_match :: "string \<Rightarrow> string \<Rightarrow> string option" where
  "demo_match pat target =
     (if pat = ''/'' then (if target = ''/'' then Some [] else None)
      else if target \<noteq> ''/'' then Some (tl target) else None)"

definition demo_lib :: "(nat, string, string, nat) dht_lib" where
  "demo_lib = \<lparr>hash_of_string = length, hash_nonzero = (\<lambda>h. h \<noteq> 0), hash_get = length,
     parse_json = (\<lambda>b. if b = ''bad'' then None else Some b), is_member = (\<lambda>j k. Some False),
     value_of_json = (\<lambda>j. if j = ''[]'' then None else Some j), write_value = id, write_info = (\<lambda>n address. address),
     good_nodes_ipv4 = id, good_nodes_ipv6 = (\<lambda>n. 0), path_match = demo_match\<rparr>"

definition demo_request :: "http_method \<Rightarrow> string \<Rightarrow> http_req" where
  "demo_request m b =
     \<lparr>req_method = m, req_target = ''/ab'', req_body = b, remote_address = ''10.0.0.1''\<rparr>"

lemmas demo_defs = demo_match_def demo_lib_def demo_request_def new_proxy_def rest_router_def
  handle_def options_def get_node_info_def get_def put_def on_value_def on_get_done_def
  on_put_done_def send_def info_hash_def transcript_def

section \<open>The properties\<close>

text \<open>
  C8. In every run of the proxy in which the DHT node calls back only for operations it was
  handed, whatever the interleaving of requests and callbacks: what is put on the wire for any
  one request is nothing, one complete answer, an open stream (the flushed header and chunks) or
  a stream that was ended once and last. Nothing is ever sent for a request that is answered.
\<close>

theorem proxy_replies_well_formed:
  assumes "legal_events proxy_ok (proxy_step lib identity) (new_proxy info) (es @ fs)"
  shows "let before = transcript i (run_events (proxy_step lib identity) (new_proxy info) es);
             after = transcript i (run_events (proxy_step lib identity) (new_proxy info) (es @ fs))
         in (answered before \<or> streaming before) \<and>
            (before \<noteq> [] \<longrightarrow> \<not> streaming before \<longrightarrow> after = before)"
proof -
  let ?s = "run_events (proxy_step lib identity) (new_proxy info) es"
  have legal: "legal_events proxy_ok (proxy_step lib identity) ?s fs"
    using assms by (simp add: legal_events_append)
  have "proxy_inv ?s"
    using assms by (intro proxy.run_inv [OF new_proxy_inv]) (simp add: legal_events_append)
  then have ph: "phase_ok ?s i" by (rule phase_of)
  then have "answered (transcript i ?s) \<or> streaming (transcript i ?s)"
    by (auto simp: phase_ok_def split: if_splits)
  moreover have "closed i ?s" if "transcript i ?s \<noteq> []" and "\<not> streaming (transcript i ?s)"
    using ph that by (auto simp: phase_ok_def closed_def split: if_splits)
  ultimately show ?thesis using closed_run [OF legal] by (auto simp: run_events_append Let_def)
qed

theorem proxy_replies_well_formed_witness:
  "transcript 0 (run_events (proxy_step demo_lib False) (new_proxy 0)
     ([Request (demo_request Get []) 1, Value 0 ''v'', Get_done 0] @
      [Request (demo_request Post ''x'') 1, Put_done 1 True])) =
   [Flushed init_http_response, Chunk (''v'' @ [LF]), Finished]"
proof -
  let ?es = "[Request (demo_request Get []) 1, Value 0 ''v'', Get_done 0]"
  let ?fs = "[Request (demo_request Post ''x'') 1, Put_done 1 True]"
  have legal: "legal_events proxy_ok (proxy_step demo_lib False) (new_proxy 0) (?es @ ?fs)"
    by (simp add: demo_defs)
  have "transcript 0 (run_events (proxy_step demo_lib False) (new_proxy 0) ?es) =
      [Flushed init_http_response, Chunk (''v'' @ [LF]), Finished]"
    by (simp add: demo_defs)
  with proxy_replies_well_formed [OF legal, of 0] show ?thesis by (simp only: Let_def) simp
qed

text \<open>
  C9. A \<^verbatim>\<open>GET\<close> that the router sends to \<^verbatim>\<open>get\<close> is answered by the header, then one chunk for every
  value the node reports for it, in the order of the reports and each ended by a newline, then
  the end of the stream if the node reported the end: independent of every other request and
  callback between them.
\<close>

theorem proxy_get_streams:
  assumes "legal_events proxy_ok (proxy_step lib identity) (new_proxy info) (pre @ Request r c # es)"
    and "route_of lib r rest_router = Some (Route_get, hash)"
  shows "transcript (requests pre)
      (run_events (proxy_step lib identity) (new_proxy info) (pre @ Request r c # es)) =
    Flushed init_http_response # stream lib (requests pre) es"
  using assms by (rule get_transcript)

theorem proxy_get_streams_witness:
  "transcript (requests [Request (demo_request Post ''x'') 1 :: (string, nat) proxy_event])
     (run_events (proxy_step demo_lib False) (new_proxy 0)
       ([Request (demo_request Post ''x'') 1] @ Request (demo_request Get []) 1 #
        [Value 1 ''v'', Put_done 0 True, Value 1 ''w'', Get_done 1])) =
   Flushed init_http_response #
     stream demo_lib (requests [Request (demo_request Post ''x'') 1 :: (string, nat) proxy_event])
       [Value 1 ''v'', Put_done 0 True, Value 1 ''w'', Get_done 1]"
  by (rule proxy_get_streams [where hash = "''ab''"]) (simp_all add: demo_defs)

text \<open>
  C10. A \<^verbatim>\<open>POST\<close> that the router sends to \<^verbatim>\<open>put\<close>: an empty body is answered at once with 400; a body that is no
  JSON, or JSON that makes no value (the handler throws), never; any other is answered exactly once, when the node
  reports the verdict, with 200 and the value, or with 502. Nothing else that the proxy does meanwhile matters.
\<close>

theorem proxy_put_answers:
  assumes "legal_events proxy_ok (proxy_step lib identity) (new_proxy info) (pre @ Request r c # es)"
    and "route_of lib r rest_router = Some (Route_put, hash)"
  shows "transcript (requests pre)
      (run_events (proxy_step lib identity) (new_proxy info) (pre @ Request r c # es)) =
    (if req_body r = [] then [Reply 400 init_http_response resp_msg_missing_params]
     else case accepted_put lib (req_body r) of
         None \<Rightarrow> []
       | Some (v, permanent) \<Rightarrow>
           (case verdict (requests pre) es of
              None \<Rightarrow> []
            | Some True \<Rightarrow> [Reply 200 init_http_response (write_value lib v @ [LF])]
            | Some False \<Rightarrow> [Reply 502 init_http_response resp_msg_put_failed]))"
  using assms by (rule put_transcript)

theorem proxy_put_answers_witness:
  "transcript 0 (run_events (proxy_step demo_lib False) (new_proxy 0)
     ([] @ Request (demo_request Post ''x'') 1 # [Put_done 0 True])) =
     [Reply 200 init_http_response (''x'' @ [LF])] \<and>
   transcript 0 (run_events (proxy_step demo_lib False) (new_proxy 0)
     ([] @ Request (demo_request Post ''[]'') 1 # [])) = []"
proof -
  let ?run = "\<lambda>b es. [] @ Request (demo_request Post b) (1 :: nat) # es"
  have legal: "legal_events proxy_ok (proxy_step demo_lib False) (new_proxy 0) (?run ''x'' [Put_done 0 True])"
      "legal_events proxy_ok (proxy_step demo_lib False) (new_proxy 0) (?run ''[]'' [])"
    by (simp_all add: demo_defs)
  have route: "route_of demo_lib (demo_request Post b) rest_router = Some (Route_put, ''ab'')" for b
    by (simp add: demo_defs)
  have put: "accepted_put demo_lib ''x'' = Some (''x'', False)" "accepted_put demo_lib ''[]'' = None"
      "write_value demo_lib = id" "req_body (demo_request Post b) = b" for b
    by (simp_all add: accepted_put_def demo_lib_def demo_request_def)
  from proxy_put_answers [OF legal(1) route] proxy_put_answers [OF legal(2) route]
  show ?thesis by (simp only: put requests.simps verdict.simps) simp
qed



lemma node_info_step:
  assumes "good_nodes_ipv4 lib (node_info s) \<noteq> 0 \<or> good_nodes_ipv6 lib (node_info s) \<noteq> 0"
  shows "node_info (proxy_step lib identity s e) = node_info s"
  using assms
  by (cases e) (auto simp: handle_def step_defs on_put_done_def Let_def
      split: option.splits route.splits)

text \<open>
  C36. The node information is a cache that is filled and never refreshed: from the moment it
  has a good node of either family, no request and no callback changes it, whatever the node
  would answer by then; a status request shows it as it was.
\<close>

theorem proxy_node_info_frozen:
  assumes "good_nodes_ipv4 lib (node_info s) \<noteq> 0 \<or> good_nodes_ipv6 lib (node_info s) \<noteq> 0"
  shows "let t = run_events (proxy_step lib identity) s es
         in node_info t = node_info s \<and>
            wire (get_node_info lib current i address t) = wire t @
              [(i, Reply 200 init_http_response (write_info lib (node_info s) address @ [LF]))]"
proof -
  let ?t = "run_events (proxy_step lib identity) s es"
  have frozen: "node_info ?t = node_info s"
    using assms by (induction es arbitrary: s) (simp_all add: node_info_step)
  then have "\<not> (good_nodes_ipv4 lib (node_info ?t) = 0 \<and> good_nodes_ipv6 lib (node_info ?t) = 0)"
    using assms by simp
  then show ?thesis by (simp only: get_node_info_def Let_def frozen if_False) (simp add: send_def)
qed

theorem proxy_node_info_frozen_witness:
  "let t = run_events (proxy_step demo_lib False) (new_proxy 3) [Request (demo_request Get []) 7]
   in node_info t = node_info (new_proxy (3::nat) :: (nat, string, nat) proxy) \<and>
      wire (get_node_info demo_lib 8 1 ''10.0.0.2'' t) = wire t @
        [(1, Reply 200 init_http_response
           (write_info demo_lib (node_info (new_proxy 3 :: (nat, string, nat) proxy)) ''10.0.0.2'' @ [LF]))]"
  by (rule proxy_node_info_frozen) (simp add: demo_defs)

lemma rest_threads_unknown: "unat (rest_threads 0) = 4294967295"
  by (simp add: rest_threads_def word_less_nat_alt unat_minus_1_u32 Let_def)

text \<open>
  The number of request threads is one less than the number of processors, at least 1;
  but where the number of processors is not known, and \<^verbatim>\<open>hardware_concurrency\<close> is 0, it is
  4294967295.
\<close>

theorem proxy_rest_threads:
  "unat (rest_threads n) = (if n = 0 then 4294967295 else max 1 (unat n - 1))"
proof (cases "n = 0")
  case False
  then have "unat (n - 1) = unat n - 1" by (simp add: unat_minus_one)
  moreover have "(1 < n - 1) = (1 < unat (n - 1))" by (simp add: word_less_nat_alt)
  ultimately show ?thesis using False by (auto simp: rest_threads_def Let_def max_def)
qed (simp add: rest_threads_unknown)

end
