(* ===== verification/Http_Servers.thy ===== *)
theory Http_Servers
  imports Cpp_Std
begin

section \<open>Small HTTP servers\<close>

subsection \<open>The dyad server (cpp/server/httpserver\_dyad.cpp)\<close>

text \<open>
  \<^verbatim>\<open>sscanf(data, "GET %127s", path) == 1\<close>: the letters have to match one by one, the blank of the
  format stands for any amount of white space, none included, and the conversion skips white
  space and takes up to 127 other characters.
\<close>

fun match_literal :: "string \<Rightarrow> string \<Rightarrow> string option" where
  "match_literal [] s = Some s"
| "match_literal (l # ls) [] = None"
| "match_literal (l # ls) (c # s) = (if c = l then match_literal ls s else None)"

definition scan_path :: "string \<Rightarrow> string \<Rightarrow> string option" where
  "scan_path verb s =
     (case match_literal verb s of None \<Rightarrow> None
      | Some r \<Rightarrow>
          (let w = take 127 (takeWhile (\<lambda>c. \<not> is_space c) (dropWhile is_space r))
           in if w = [] then None else Some w))"

datatype listener = On_error | On_accept | On_listen | On_line

text \<open>
  The server: the listeners of its own stream, the streams it accepted with theirs, what was
  written to each, and the lines on standard output that show a path.
\<close>

record dyad_server =
  server_listeners :: "listener set"
  line_listeners :: "nat list"
  written :: "(nat \<times> string) list"
  shown :: "(nat \<times> string) list"

definition new_dyad_server :: dyad_server where
  "new_dyad_server =
     \<lparr>server_listeners = {On_error, On_accept, On_listen}, line_listeners = [], written = [], shown = []\<rparr>"

definition on_accept_dyad :: "nat \<Rightarrow> dyad_server \<Rightarrow> dyad_server" where
  "on_accept_dyad remote d = d\<lparr>line_listeners := line_listeners d @ [remote]\<rparr>"

definition write_to :: "nat \<Rightarrow> string list \<Rightarrow> dyad_server \<Rightarrow> dyad_server" where
  "write_to st ts d = d\<lparr>written := written d @ map (Pair st) ts\<rparr>"

definition ok_header :: string where
  "ok_header = ''HTTP/1.1 200 OK'' @ crlf @ crlf"

text \<open>
  \<^verbatim>\<open>onLine\<close>. For \<^verbatim>\<open>PUT\<close> the pointer to the stream is printed with \<^verbatim>\<open>%s\<close>: undefined behaviour.
\<close>

definition on_line :: "nat \<Rightarrow> string \<Rightarrow> dyad_server \<Rightarrow> dyad_server option" where
  "on_line st line d =
     (case scan_path ''GET'' (c_str line) of
        Some path \<Rightarrow>
          Some (write_to st [ok_header, ''dht::get()''] (d\<lparr>shown := shown d @ [(st, path)]\<rparr>))
      | None \<Rightarrow>
          (case scan_path ''PUT'' (c_str line) of
             Some path \<Rightarrow> None
           | None \<Rightarrow> Some d))"

datatype dyad_event = Accepted nat | Line nat string

text \<open>A listener that was added to a stream runs once for every event of its kind.\<close>

fun dyad_step :: "dyad_server \<Rightarrow> dyad_event \<Rightarrow> dyad_server option" where
  "dyad_step d (Accepted remote) = Some (on_accept_dyad remote d)"
| "dyad_step d (Line st line) =
     (if st \<in> set (line_listeners d) then on_line st line d else Some d)"

fun dyad_run :: "dyad_server \<Rightarrow> dyad_event list \<Rightarrow> dyad_server option" where
  "dyad_run d [] = Some d"
| "dyad_run d (e # es) = Option.bind (dyad_step d e) (\<lambda>d1. dyad_run d1 es)"

subsection \<open>The pistache server (cpp/opendht/dhtproxyserver/proxy\_pistache.cpp)\<close>

text \<open>
  \<^verbatim>\<open>get\<close>: every value the node finds, followed by a comma, sent as a C string. \<^verbatim>\<open>put\<close>: the body of the request.
  \<open>found\<close> is what \<^verbatim>\<open>node->get(infoHash).get()\<close> gives for the key made from the path.
\<close>

definition pistache_key :: "(string \<Rightarrow> 'h) \<Rightarrow> ('h \<Rightarrow> bool) \<Rightarrow> (string \<Rightarrow> 'h) \<Rightarrow> string \<Rightarrow> 'h" where
  "pistache_key of_string nonzero get_hash s =
     (let h = of_string s in if \<not> nonzero h then get_hash s else h)"

fun append_values :: "string \<Rightarrow> string list \<Rightarrow> string" where
  "append_values data [] = data"
| "append_values data (v # vs) = append_values ((data @ v) @ '','') vs"

definition pistache_get :: "('h \<Rightarrow> string list) \<Rightarrow> 'h \<Rightarrow> nat \<times> string" where
  "pistache_get found key = (200, c_str (append_values [] (found key)))"

definition pistache_put :: "string \<Rightarrow> nat \<times> string" where
  "pistache_put body = (200, body)"

subsection \<open>The reply in parts (cpp/restinio/server\_reply\_by\_parts.cpp)\<close>

text \<open>
  The calls of \<^verbatim>\<open>get\<close> on the response. \<^verbatim>\<open>append_chunk\<close> keeps a chunk in the response, \<^verbatim>\<open>flush\<close> hands
  what is kept to the connection (the header with the first of it), \<^verbatim>\<open>done\<close> hands over the rest and
  ends the response.
\<close>

datatype part_call = Flush | Append_chunk string | Sleep nat | Done

record chunked_response =
  header_fields :: "(string \<times> string) list"
  header_sent :: bool
  kept :: "string list"
  timeline :: "(nat \<times> string list) list"
  clock :: nat
  ended :: bool

definition init_http_resp :: "(string \<times> string) list" where
  "init_http_resp =
     [(''Server'', ''RESTinio''), (''Access-Control-Allow-Origin'', ''*''), (''Connection'', ''keep-alive'')]"

definition remove_field :: "string \<Rightarrow> (string \<times> string) list \<Rightarrow> (string \<times> string) list" where
  "remove_field f fs = filter (\<lambda>x. fst x \<noteq> f) fs"

definition create_chunked :: chunked_response where
  "create_chunked =
     \<lparr>header_fields = remove_field ''Content-Length'' init_http_resp, header_sent = False, kept = [],
      timeline = [], clock = 0, ended = False\<rparr>"

fun part_step :: "chunked_response \<Rightarrow> part_call \<Rightarrow> chunked_response" where
  "part_step r Flush = r\<lparr>header_sent := True, timeline := timeline r @ [(clock r, kept r)], kept := []\<rparr>"
| "part_step r (Append_chunk s) = r\<lparr>kept := kept r @ [s]\<rparr>"
| "part_step r (Sleep n) = r\<lparr>clock := clock r + n\<rparr>"
| "part_step r Done =
     r\<lparr>header_sent := True, timeline := timeline r @ [(clock r, kept r)], kept := [], ended := True\<rparr>"

definition parts_get :: "part_call list" where
  "parts_get =
     [Flush, Sleep 2, Append_chunk ''i like'', Flush, Sleep 2, Append_chunk '' waffles!'', Flush, Sleep 2,
      Done]"

definition parts_response :: chunked_response where
  "parts_response = fold (\<lambda>c r. part_step r c) parts_get create_chunked"

subsection \<open>Laws\<close>

lemma match_literal_iff: "match_literal ls s = Some r \<longleftrightarrow> s = ls @ r"
  by (induction ls s rule: match_literal.induct) auto

text \<open>What a scanned path is, without reference to the scanner.\<close>

definition path_of :: "string \<Rightarrow> string \<Rightarrow> string \<Rightarrow> bool" where
  "path_of verb s w \<longleftrightarrow>
     (\<exists>sp r. s = verb @ sp @ w @ r \<and> list_all is_space sp \<and> w \<noteq> [] \<and>
        list_all (\<lambda>c. \<not> is_space c) w \<and> length w \<le> 127 \<and>
        (length w = 127 \<or> r = [] \<or> is_space (hd r)))"

lemma word_unique:
  assumes "s = sp @ w @ r" and "list_all is_space sp" and "w \<noteq> []"
    and "list_all (\<lambda>c. \<not> is_space c) w" and "length w \<le> 127"
    and "length w = 127 \<or> r = [] \<or> is_space (hd r)"
  shows "take 127 (takeWhile (\<lambda>c. \<not> is_space c) (dropWhile is_space s)) = w"
proof -
  have "dropWhile is_space s = w @ r"
    using assms(1-4) by (simp add: dropWhile_append2 list_all_iff) (cases w; simp)
  moreover have "takeWhile (\<lambda>c. \<not> is_space c) (w @ r) = w @ takeWhile (\<lambda>c. \<not> is_space c) r"
    using assms(4) by (simp add: takeWhile_append2 list_all_iff)
  moreover have "take (127 - length w) (takeWhile (\<lambda>c. \<not> is_space c) r) = []"
    using assms(6) by (cases r) auto
  ultimately show ?thesis using assms(5) by simp
qed

lemma scan_path_iff: "scan_path verb s = Some w \<longleftrightarrow> path_of verb s w"
proof
  assume "scan_path verb s = Some w"
  then obtain r where r: "match_literal verb s = Some r"
      "w = take 127 (takeWhile (\<lambda>c. \<not> is_space c) (dropWhile is_space r))" "w \<noteq> []"
    by (auto simp: scan_path_def Let_def split: option.splits if_splits)
  let ?t = "dropWhile is_space r"
  let ?u = "takeWhile (\<lambda>c. \<not> is_space c) ?t"
  have "s = verb @ takeWhile is_space r @ w @ (drop 127 ?u @ dropWhile (\<lambda>c. \<not> is_space c) ?t)"
    using r(1,2) match_literal_iff [of verb s r]
    by (metis append.assoc append_take_drop_id takeWhile_dropWhile_id)
  moreover have "list_all is_space (takeWhile is_space r)"
    by (auto simp: list_all_iff dest: set_takeWhileD)
  moreover have "list_all (\<lambda>c. \<not> is_space c) w" using r(2)
    by (auto simp: list_all_iff dest: in_set_takeD set_takeWhileD)
  moreover have "length w = 127 \<or> drop 127 ?u @ dropWhile (\<lambda>c. \<not> is_space c) ?t = [] \<or>
      is_space (hd (drop 127 ?u @ dropWhile (\<lambda>c. \<not> is_space c) ?t))"
    using r(2) hd_dropWhile [of "\<lambda>c. \<not> is_space c" ?t] by (cases "length ?u \<le> 127") auto
  ultimately show "path_of verb s w" using r(2,3) unfolding path_of_def by fastforce
next
  assume "path_of verb s w"
  then obtain sp r where s: "s = verb @ sp @ w @ r" "list_all is_space sp" "w \<noteq> []"
      "list_all (\<lambda>c. \<not> is_space c) w" "length w \<le> 127" "length w = 127 \<or> r = [] \<or> is_space (hd r)"
    by (auto simp: path_of_def)
  then have "match_literal verb s = Some (sp @ w @ r)" by (simp add: match_literal_iff)
  then show "scan_path verb s = Some w" using word_unique [OF refl s(2-6)] s(3)
    by (simp add: scan_path_def)
qed

lemma append_values_concat: "append_values data vs = data @ concat (map (\<lambda>v. v @ '','') vs)"
  by (induction vs arbitrary: data) simp_all

fun split_commas :: "string \<Rightarrow> string \<Rightarrow> string list" where
  "split_commas p [] = []"
| "split_commas p (c # s) =
     (if c = CHR '','' then p # split_commas [] s else split_commas (p @ [c]) s)"

lemma split_commas_value:
  "CHR '','' \<notin> set v \<Longrightarrow> split_commas p (v @ CHR '','' # s) = (p @ v) # split_commas [] s"
  by (induction v arbitrary: p) auto

text \<open>The parts leave two seconds apart and together make the text.\<close>

lemma parts_response_timeline:
  "timeline parts_response = [(0, []), (2, [''i like'']), (4, ['' waffles!'']), (6, [])] \<and>
   concat (concat (map snd (timeline parts_response))) = ''i like waffles!'' \<and> ended parts_response"
  by (simp add: parts_response_def parts_get_def create_chunked_def)

subsection \<open>Runs of the dyad server\<close>

definition answers_to :: "nat \<Rightarrow> (nat \<times> string) list \<Rightarrow> string list" where
  "answers_to st ts = map snd (filter (\<lambda>w. fst w = st) ts)"

lemma answers_to_append: "answers_to st (ts @ us) = answers_to st ts @ answers_to st us"
  by (simp add: answers_to_def)

text \<open>The GET lines among the events of a stream, from the moment it is accepted.\<close>

fun get_paths :: "bool \<Rightarrow> nat \<Rightarrow> dyad_event list \<Rightarrow> string list" where
  "get_paths acc st [] = []"
| "get_paths acc st (Accepted r # es) = get_paths (acc \<or> r = st) st es"
| "get_paths acc st (Line r l # es) =
     (case (if acc \<and> r = st then scan_path ''GET'' (c_str l) else None) of
        None \<Rightarrow> get_paths acc st es
      | Some p \<Rightarrow> p # get_paths acc st es)"

lemma dyad_run_paths:
  assumes "dyad_run d es = Some d'"
  shows "answers_to st (shown d') =
      answers_to st (shown d) @ get_paths (st \<in> set (line_listeners d)) st es \<and>
    answers_to st (written d') = answers_to st (written d) @
      concat (map (\<lambda>p. [ok_header, ''dht::get()'']) (get_paths (st \<in> set (line_listeners d)) st es))"
  using assms
proof (induction es arbitrary: d)
  case Nil
  then show ?case by simp
next
  case (Cons e es)
  then obtain d1 where d1: "dyad_step d e = Some d1" "dyad_run d1 es = Some d'"
    by (auto split: Option.bind_splits)
  note ih = Cons.IH [OF d1(2)]
  show ?case
  proof (cases e)
    case (Accepted r)
    then have "d1 = on_accept_dyad r d" using d1(1) by simp
    then show ?thesis using ih by (simp add: Accepted on_accept_dyad_def disj_commute eq_commute)
  next
    case (Line r l)
    show ?thesis
    proof (cases "r \<in> set (line_listeners d) \<and> scan_path ''GET'' (c_str l) \<noteq> None")
      case True
      then obtain p where p: "scan_path ''GET'' (c_str l) = Some p" by auto
      then have "d1 = write_to r [ok_header, ''dht::get()''] (d\<lparr>shown := shown d @ [(r, p)]\<rparr>)"
        using d1(1) True by (simp add: Line on_line_def)
      then show ?thesis using ih True p by (auto simp: Line write_to_def answers_to_def)
    next
      case False
      then have "d1 = d" using d1(1) by (auto simp: Line on_line_def split: if_splits option.splits)
      then show ?thesis using ih False by (auto simp: Line)
    qed
  qed
qed

section \<open>Properties\<close>

text \<open>
  C38. A line of a connection is answered exactly if, as a C string, it starts with \<^verbatim>\<open>GET\<close> and a
  word follows, with white space between or without any; the word shown is the first 127 characters of it at
  most, so it fits the buffer of 128 with its NUL. A line that starts with \<^verbatim>\<open>PUT\<close> in the same way is undefined
  behaviour; every other line changes nothing.
\<close>

theorem dyad_line_cases:
  "(on_line st line d = None) = (\<exists>w. path_of ''PUT'' (c_str line) w) \<and>
   (on_line st line d =
      Some (d\<lparr>shown := shown d @ [(st, w)],
              written := written d @ [(st, ok_header), (st, ''dht::get()'')]\<rparr>)) =
     path_of ''GET'' (c_str line) w \<and>
   (on_line st line d = Some d) =
     (\<nexists>w. path_of ''GET'' (c_str line) w \<or> path_of ''PUT'' (c_str line) w)"
proof -
  have excl: "\<not> (path_of ''GET'' s u \<and> path_of ''PUT'' s v)" for s u v
    by (auto simp: path_of_def)
  have changed: "d\<lparr>shown := shown d @ [x], written := written d @ [y, z]\<rparr> \<noteq> d" for x y z
    by (cases d) simp
  have same: "d\<lparr>shown := shown d @ [(st, u)], written := written d @ ys\<rparr> =
      d\<lparr>shown := shown d @ [(st, v)], written := written d @ ys\<rparr> \<longleftrightarrow> u = v" for u v ys
    by (cases d) auto
  show ?thesis
  proof (cases "scan_path ''GET'' (c_str line)")
    case (Some p)
    then have p: "path_of ''GET'' (c_str line) p" by (simp add: scan_path_iff)
    have "path_of ''GET'' (c_str line) w \<longleftrightarrow> w = p" for w
      using Some scan_path_iff [of "''GET''" "c_str line" w] by auto
    then show ?thesis using Some p excl changed
      by (auto simp: on_line_def write_to_def same)
  next
    case None
    then have "\<not> path_of ''GET'' (c_str line) w" for w
      using scan_path_iff [of "''GET''" "c_str line" w] by auto
    then show ?thesis using None changed changed [symmetric]
      by (auto simp: on_line_def scan_path_iff [symmetric] split: option.splits)
  qed
qed

text \<open>
  In every run of the server without undefined behaviour each connection is sent the
  two texts once for each of its GET lines that came after it was accepted, and nothing else; the paths are
  shown in the order of the lines.
\<close>

theorem dyad_run_answers:
  assumes "dyad_run new_dyad_server es = Some d"
  shows "answers_to st (shown d) = get_paths False st es \<and>
    answers_to st (written d) =
      concat (map (\<lambda>p. [ok_header, ''dht::get()'']) (get_paths False st es))"
  using dyad_run_paths [OF assms, of st] by (simp add: new_dyad_server_def answers_to_def)

theorem dyad_run_answers_witness:
  "let es = [Accepted 7, Line 7 ''GET /key HTTP/1.1'', Line 7 ''Host: x'', Line 3 ''GET /''] in
   answers_to 7 (written (the (dyad_run new_dyad_server es))) = [ok_header, ''dht::get()'']"
proof -
  let ?es = "[Accepted 7, Line 7 ''GET /key HTTP/1.1'', Line 7 ''Host: x'', Line 3 ''GET /'']"
  have get: "scan_path ''GET'' ''GET /key HTTP/1.1'' = Some ''/key''"
    by (simp add: scan_path_def is_space_def)
  have no: "scan_path ''GET'' ''Host: x'' = None" "scan_path ''PUT'' ''Host: x'' = None"
    by (simp_all add: scan_path_def)
  obtain d where d: "dyad_run new_dyad_server ?es = Some d"
    by (simp add: new_dyad_server_def on_accept_dyad_def on_line_def get no write_to_def)
  from dyad_run_answers [OF d, of 7] have "answers_to 7 (written d) = [ok_header, ''dht::get()'']"
    by (simp add: get no)
  then show ?thesis by (simp only: Let_def d option.sel)
qed

text \<open>
  A reader that splits the answer of the pistache server at the commas gets back the values the node
  found, in order, if none of them holds a comma or a NUL; whatever comes after the first NUL of
  any value is not sent.
\<close>

theorem pistache_get_values:
  assumes "list_all (\<lambda>v. CHR '','' \<notin> set v \<and> NUL \<notin> set v) vs" and "found key = vs @ ws"
  shows "split_commas [] (snd (pistache_get (\<lambda>k. vs) key)) = vs \<and>
    (hd ws = v @ NUL # v' \<and> ws \<noteq> [] \<and> NUL \<notin> set v \<longrightarrow>
      pistache_get found key = (200, concat (map (\<lambda>v. v @ '','') vs) @ v))"
proof -
  have no_nul: "NUL \<notin> set (concat (map (\<lambda>v. v @ '','') vs))"
    using assms(1) by (induction vs) auto
  have "split_commas [] (concat (map (\<lambda>v. v @ '','') vs)) = vs"
    using assms(1) by (induction vs) (simp_all add: split_commas_value)
  then have "split_commas [] (snd (pistache_get (\<lambda>k. vs) key)) = vs"
    using no_nul by (simp add: pistache_get_def append_values_concat c_str_id)
  moreover have "pistache_get found key = (200, concat (map (\<lambda>v. v @ '','') vs) @ v)"
    if "hd ws = v @ NUL # v'" "ws \<noteq> []" "NUL \<notin> set v"
  proof -
    have "append_values [] (found key) =
        (concat (map (\<lambda>v. v @ '','') vs) @ v) @ NUL # (v' @ '','' @ concat (map (\<lambda>v. v @ '','') (tl ws)))"
      using that assms(2) by (cases ws) (simp_all add: append_values_concat)
    moreover have "c_str ((concat (map (\<lambda>v. v @ '','') vs) @ v) @ NUL # r) =
        concat (map (\<lambda>v. v @ '','') vs) @ v" for r
      using no_nul that(3) by (intro c_str_append_nul) auto
    ultimately show ?thesis by (simp only: pistache_get_def)
  qed
  ultimately show ?thesis by blast
qed

theorem pistache_get_values_witness:
  "split_commas [] (snd (pistache_get (\<lambda>k. [''a'', ''bc'']) (0::nat))) = [''a'', ''bc''] \<and>
   pistache_get (\<lambda>k. [''a'', ''bc''] @ [''d'' @ NUL # ''e'']) (0::nat) = (200, ''a,bc,d'')"
  using pistache_get_values [of "[''a'', ''bc'']" "\<lambda>k. [''a'', ''bc''] @ [''d'' @ NUL # ''e'']" "0::nat"
      "[''d'' @ NUL # ''e'']" "''d''" "''e''"]
  by simp

end
