(* ===== verification/Server_Life.thy ===== *)
theory Server_Life
  imports Step_Machine Dht_Proxy Http_Servers Printf Program_Run
begin

section \<open>The lives of the two RESTinio servers (proxy\_restinio.cpp, server\_reply\_by\_parts.cpp)\<close>

text \<open>
  Both servers run on a thread of their own that the constructor starts, while \<^verbatim>\<open>main\<close> loops. What the constructors
  hand to RESTinio is a list of settings.
\<close>

datatype setting =
    Pool_size u32
  | Address string
  | Port u16
  | Routes "(string \<times> string) list"
  | Read_next_http_message_timelimit nat
  | Write_http_response_timelimit nat
  | Handle_request_timeout nat
  | No_delay bool

subsection \<open>The proxy\<close>

fun method_text :: "http_method \<Rightarrow> string" where
  "method_text Options = ''OPTIONS''"
| "method_text Get = ''GET''"
| "method_text Post = ''POST''"
| "method_text (Other_method m) = m"

definition proxy_settings :: "u32 \<Rightarrow> u16 \<Rightarrow> setting list" where
  "proxy_settings hardware_concurrency port =
     [Pool_size (rest_threads hardware_concurrency), Address ''127.0.0.1'', Port port,
      Routes (map (\<lambda>(m, pat, rt). (method_text m, pat)) rest_router),
      Read_next_http_message_timelimit 10, Write_http_response_timelimit 10, Handle_request_timeout 10,
      No_delay True]"

definition threads_line :: "u32 \<Rightarrow> string option" where
  "threads_line hardware_concurrency =
     printf (''Running on restinio on %i threads'' @ [LF]) [Uint_arg (unat (rest_threads hardware_concurrency))]"

text \<open>
  The thread prints, replaces \<^verbatim>\<open>httpServer_\<close>, posts the opening of the server, and runs the loop of its context. An
  exception of a handler, of the opening or later, leaves \<^verbatim>\<open>run()\<close> and is printed; whether the context counts as stopped then is for the
  library to say (asio stops one that has run out of work). \<^verbatim>\<open>run()\<close> may also return, and then the context is stopped. \<^verbatim>\<open>main\<close> asks
  \<^verbatim>\<open>running()\<close>, which reads \<^verbatim>\<open>httpServer_\<close>, every ten seconds; when it is false, the destructor closes the server and
  joins the thread; the closing (\<^verbatim>\<open>close_sync\<close>) is taken to return.
\<close>

datatype server_thread =
    Prepare | Assign_server | Post_open | Run_context | Serving | Catching string | Thread_ended

datatype main_thread = Ask_running | Sleeping | Stopping | Joining | Main_returned

record proxy_life =
  server_thread :: server_thread
  main_thread :: main_thread
  context_stopped :: bool
  shown_lines :: "string option list"

definition proxy_constructed :: proxy_life where
  "proxy_constructed =
     \<lparr>server_thread = Prepare, main_thread = Ask_running, context_stopped = False, shown_lines = []\<rparr>"

definition running :: "proxy_life \<Rightarrow> bool" where
  "running l = (\<not> context_stopped l)"

definition error_line :: "string \<Rightarrow> string" where
  "error_line what = ''Error: '' @ c_str what @ [LF]"

inductive life_step :: "u32 \<Rightarrow> proxy_life \<Rightarrow> proxy_life \<Rightarrow> bool" for cores :: u32 where
  prepare: "server_thread l = Prepare \<Longrightarrow>
     life_step cores l (l\<lparr>shown_lines := shown_lines l @ [threads_line cores], server_thread := Assign_server\<rparr>)"
| assign: "server_thread l = Assign_server \<Longrightarrow>
     life_step cores l (l\<lparr>context_stopped := False, server_thread := Post_open\<rparr>)"
| post_open: "server_thread l = Post_open \<Longrightarrow> life_step cores l (l\<lparr>server_thread := Run_context\<rparr>)"
| opens: "server_thread l = Run_context \<Longrightarrow> life_step cores l (l\<lparr>server_thread := Serving\<rparr>)"
| throws: "server_thread l \<in> {Run_context, Serving} \<Longrightarrow>
     life_step cores l (l\<lparr>context_stopped := stops, server_thread := Catching what\<rparr>)"
| run_returns: "server_thread l = Serving \<Longrightarrow>
     life_step cores l (l\<lparr>context_stopped := True, server_thread := Thread_ended\<rparr>)"
| catches: "server_thread l = Catching what \<Longrightarrow>
     life_step cores l (l\<lparr>shown_lines := shown_lines l @ [Some (error_line what)], server_thread := Thread_ended\<rparr>)"
| asks: "main_thread l = Ask_running \<Longrightarrow>
     life_step cores l (l\<lparr>main_thread := if running l then Sleeping else Stopping\<rparr>)"
| wakes: "main_thread l = Sleeping \<Longrightarrow> life_step cores l (l\<lparr>main_thread := Ask_running\<rparr>)"
| closes: "main_thread l = Stopping \<Longrightarrow> life_step cores l (l\<lparr>main_thread := Joining\<rparr>)"
| joins: "main_thread l = Joining \<Longrightarrow> server_thread l = Thread_ended \<Longrightarrow>
     life_step cores l (l\<lparr>main_thread := Main_returned\<rparr>)"

abbreviation life_reach :: "u32 \<Rightarrow> proxy_life \<Rightarrow> bool" where
  "life_reach cores \<equiv> reaches (life_step cores) proxy_constructed"

text \<open>Both threads are about to access \<^verbatim>\<open>httpServer_\<close>, one of them to replace it, and nothing orders them.\<close>

definition data_race :: "proxy_life \<Rightarrow> bool" where
  "data_race l = (server_thread l = Assign_server \<and> main_thread l = Ask_running)"

subsection \<open>The server that replies by parts\<close>

definition reply_threads :: "u32 \<Rightarrow> u32" where
  "reply_threads hardware_concurrency =
     (let max_threads = hardware_concurrency - 1 in if max_threads > 1 then max_threads else 1)"

definition reply_routes :: "(string \<times> string) list" where
  "reply_routes = [(''GET'', ''/'')]"

definition reply_settings :: "u32 \<Rightarrow> u16 \<Rightarrow> setting list" where
  "reply_settings hardware_concurrency port =
     [Pool_size (reply_threads hardware_concurrency), Address ''0.0.0.0'', Port port, Routes reply_routes,
      Read_next_http_message_timelimit 10, Write_http_response_timelimit 1, Handle_request_timeout 1,
      No_delay True]"

text \<open>
  The thread: \<open>run\<close> is \<^verbatim>\<open>restinio::run\<close> on the settings, \<open>Some\<close> the text of an exception, \<open>None\<close> if it does not return.
  \<^verbatim>\<open>main\<close> constructs the server and sleeps for ever, whatever became of the thread.
\<close>

definition reply_thread :: "(setting list \<Rightarrow> string option) \<Rightarrow> u32 \<Rightarrow> u16 \<Rightarrow> (string, unit) run" where
  "reply_thread run hardware_concurrency port =
     (case run (reply_settings hardware_concurrency port) of
        None \<Rightarrow> ([], Hangs)
      | Some what \<Rightarrow> ([''Error: '' @ c_str what @ [LF]], Returns ()))"

definition reply_main :: "(setting list \<Rightarrow> string option) \<Rightarrow> u32 \<Rightarrow> (string, int) run" where
  "reply_main run hardware_concurrency = (fst (reply_thread run hardware_concurrency 8080), Hangs)"

subsection \<open>Laws\<close>

text \<open>What the server thread has printed at each of its places.\<close>

fun printed_at :: "u32 \<Rightarrow> server_thread \<Rightarrow> string option list \<Rightarrow> bool" where
  "printed_at cores Prepare out = (out = [])"
| "printed_at cores Thread_ended out =
     (hd out = threads_line cores \<and>
      (length out = 1 \<or> length out = 2 \<and> map_option (take 7) (last out) = Some ''Error: ''))"
| "printed_at cores pc out = (out = [threads_line cores])"

fun out_of_run :: "server_thread \<Rightarrow> bool" where
  "out_of_run (Catching what) = True"
| "out_of_run Thread_ended = True"
| "out_of_run pc = False"

definition looping :: "proxy_life \<Rightarrow> bool" where
  "looping l = (main_thread l \<in> {Ask_running, Sleeping})"

definition life_inv :: "u32 \<Rightarrow> proxy_life \<Rightarrow> bool" where
  "life_inv cores l =
     ((running l \<or> out_of_run (server_thread l)) \<and> (running l \<longrightarrow> looping l) \<and>
      printed_at cores (server_thread l) (shown_lines l))"

lemma life_inv_step:
  assumes "life_inv cores l" and "life_step cores l m"
  shows "life_inv cores m"
  using assms(2,1)
proof (cases rule: life_step.cases)
  case (throws stops what)
  then have "running l" "shown_lines l = [threads_line cores]"
    using assms(1) by (auto simp: life_inv_def)
  then show ?thesis using throws assms(1) by (simp add: life_inv_def looping_def running_def)
qed (auto simp: life_inv_def running_def looping_def error_line_def)

interpretation life: step_machine "life_step cores" proxy_constructed "life_inv cores" for cores
  by unfold_locales (simp add: life_inv_def proxy_constructed_def running_def looping_def, rule life_inv_step)

lemma life_progress:
  assumes "life_inv cores l" and "main_thread l \<noteq> Main_returned"
  shows "\<exists>m. life_step cores l m"
proof (cases "main_thread l")
  case Joining
  then have "out_of_run (server_thread l)" using assms(1) by (auto simp: life_inv_def looping_def)
  then show ?thesis using Joining
    by (cases "server_thread l") (auto intro: life_step.catches life_step.joins)
qed (use assms(2) in \<open>auto intro: life_step.asks life_step.wakes life_step.closes\<close>)

text \<open>A server that has failed in a context that is not stopped: nothing changes any more but the clock of \<^verbatim>\<open>main\<close>.\<close>

definition dead_server :: "proxy_life \<Rightarrow> bool" where
  "dead_server l = (server_thread l = Thread_ended \<and> running l \<and> looping l)"

lemma dead_server_step: "life_step cores l m \<Longrightarrow> dead_server l \<Longrightarrow> dead_server m"
  by (erule life_step.cases) (auto simp: dead_server_def running_def looping_def)

lemma dead_server_stays: "reaches (life_step cores) l m \<Longrightarrow> dead_server l \<Longrightarrow> dead_server m"
  by (induction rule: reaches.induct) (auto intro: dead_server_step)

definition life_at :: "u32 \<Rightarrow> server_thread \<Rightarrow> bool \<Rightarrow> string list \<Rightarrow> proxy_life" where
  "life_at cores pc stopped errors =
     \<lparr>server_thread = pc, main_thread = Ask_running, context_stopped = stopped,
      shown_lines = threads_line cores # map Some errors\<rparr>"

lemma reach_race: "life_reach cores (life_at cores Assign_server False [])"
proof (rule reaches_step)
  show "life_step cores proxy_constructed (life_at cores Assign_server False [])"
    using life_step.prepare [of proxy_constructed cores] by (simp add: proxy_constructed_def life_at_def)
qed

text \<open>The opening of the server throws, and the library stops the context or does not.\<close>

lemma reach_failed: "life_reach cores (life_at cores Thread_ended stops [error_line what])"
proof -
  have "life_step cores (life_at cores Assign_server False []) (life_at cores Post_open False [])"
    using life_step.assign [of "life_at cores Assign_server False []" cores] by (simp add: life_at_def)
  moreover have "life_step cores (life_at cores Post_open False []) (life_at cores Run_context False [])"
    using life_step.post_open [of "life_at cores Post_open False []" cores] by (simp add: life_at_def)
  moreover have "life_step cores (life_at cores Run_context False []) (life_at cores (Catching what) stops [])"
    using life_step.throws [where l = "life_at cores Run_context False []" and stops = stops and what = what and cores = cores] by (simp add: life_at_def)
  moreover have "life_step cores (life_at cores (Catching what) stops [])
      (life_at cores Thread_ended stops [error_line what])"
    using life_step.catches [of "life_at cores (Catching what) stops []" what cores] by (simp add: life_at_def)
  ultimately show ?thesis using reach_race by (meson reaches.one_more)
qed

text \<open>In the first case \<^verbatim>\<open>main\<close> returns.\<close>

lemma reach_returned:
  "life_reach cores ((life_at cores Thread_ended True [error_line what])\<lparr>main_thread := Main_returned\<rparr>)"
proof -
  let ?at = "\<lambda>pc. (life_at cores Thread_ended True [error_line what])\<lparr>main_thread := pc\<rparr>"
  have "?at Ask_running = life_at cores Thread_ended True [error_line what]" by (simp add: life_at_def)
  then have "life_reach cores (?at Ask_running)" using reach_failed [of cores True what] by simp
  moreover have "life_step cores (?at Ask_running) (?at Stopping)"
    using life_step.asks [of "?at Ask_running" cores] by (simp add: running_def life_at_def)
  moreover have "life_step cores (?at Stopping) (?at Joining)"
    using life_step.closes [of "?at Stopping" cores] by simp
  moreover have "life_step cores (?at Joining) (?at Main_returned)"
    using life_step.joins [of "?at Joining" cores] by (simp add: life_at_def)
  ultimately show ?thesis by (meson reaches.one_more)
qed

lemma threads_line_unknown: "threads_line 0 = None"
  by (simp add: threads_line_def rest_threads_unknown printf_def)

section \<open>Properties\<close>

text \<open>
  C29. The life of the proxy. As long as its thread is inside \<^verbatim>\<open>run()\<close>, or has not come there, \<^verbatim>\<open>running()\<close> is true and \<^verbatim>\<open>main\<close> is in
  its loop; nothing deadlocks before \<^verbatim>\<open>main\<close> has returned, and what is printed at each place of the thread is fixed. When the server cannot be
  opened, its end depends on the library: if the context counts as stopped, \<^verbatim>\<open>main\<close> can return, else
  the process goes on without a server, and \<^verbatim>\<open>running()\<close> is true in everything that follows. The assignment of the server object
  races with the first question of \<^verbatim>\<open>main\<close>; and where the number of processors is unknown, the line with the number of
  threads is undefined.
\<close>

theorem proxy_life_ends_only_on_failure:
  assumes "life_reach cores l"
  shows "(running l \<and> looping l \<or> out_of_run (server_thread l)) \<and>
    printed_at cores (server_thread l) (shown_lines l) \<and>
    (main_thread l = Main_returned \<or> (\<exists>m. life_step cores l m)) \<and>
    (\<exists>m. life_reach cores m \<and> main_thread m = Main_returned \<and>
       last (shown_lines m) = Some (error_line what)) \<and>
    (\<exists>m. life_reach cores m \<and> server_thread m = Thread_ended \<and> last (shown_lines m) = Some (error_line what) \<and>
       (\<forall>n. reaches (life_step cores) m n \<longrightarrow> running n \<and> looping n)) \<and>
    (\<exists>m. life_reach cores m \<and> data_race m) \<and> threads_line 0 = None"
proof -
  let ?dead = "life_at cores Thread_ended False [error_line what]"
  have dead: "dead_server ?dead" "server_thread ?dead = Thread_ended"
      "last (shown_lines ?dead) = Some (error_line what)"
    by (simp_all add: dead_server_def life_at_def running_def looping_def)
  then have "running n \<and> looping n" if "reaches (life_step cores) ?dead n" for n
    using dead_server_stays [OF that] by (simp add: dead_server_def)
  with dead have "\<exists>m. life_reach cores m \<and> server_thread m = Thread_ended \<and>
      last (shown_lines m) = Some (error_line what) \<and>
      (\<forall>n. reaches (life_step cores) m n \<longrightarrow> running n \<and> looping n)"
    by (intro exI [of _ ?dead] conjI reach_failed) simp_all
  moreover have "\<exists>m. life_reach cores m \<and> main_thread m = Main_returned \<and>
      last (shown_lines m) = Some (error_line what)"
    by (intro exI conjI, rule reach_returned) (simp_all add: life_at_def)
  moreover have "\<exists>m. life_reach cores m \<and> data_race m"
    by (intro exI conjI, rule reach_race) (simp add: life_at_def data_race_def)
  moreover note inv = life.reach_inv [OF assms]
  moreover have "main_thread l = Main_returned \<or> (\<exists>m. life_step cores l m)"
    using life_progress [OF inv] by blast
  ultimately show ?thesis using threads_line_unknown by (auto simp: life_inv_def)
qed

theorem proxy_life_ends_only_on_failure_witness:
  "running (life_at 4 Run_context False []) \<or> out_of_run Run_context"
proof -
  have "life_reach 4 (life_at 4 Post_open False [])"
    using reaches.one_more [OF reach_race, of 4 "life_at 4 Post_open False []"]
      life_step.assign [of "life_at 4 Assign_server False []" 4] by (simp add: life_at_def)
  then have "life_reach 4 (life_at 4 Run_context False [])"
    using reaches.one_more [of "life_step 4" proxy_constructed "life_at 4 Post_open False []" "life_at 4 Run_context False []"]
      life_step.post_open [of "life_at 4 Post_open False []" 4] by (simp add: life_at_def)
  from proxy_life_ends_only_on_failure [OF this] show ?thesis by (auto simp: life_at_def)
qed

text \<open>
  The handler of the server that replies by parts sends its text in two parts, two seconds apart, and holds its
  thread for six seconds, although the settings allow a request one second; the pool it runs on is that of the
  proxy; and its process stays when the server has failed.
\<close>

theorem reply_by_parts:
  "timeline parts_response = [(0, []), (2, [''i like'']), (4, ['' waffles!'']), (6, [])] \<and>
   ended parts_response \<and> clock parts_response = 6 \<and>
   Handle_request_timeout 1 \<in> set (reply_settings cores port) \<and>
   hd (reply_settings cores port) = Pool_size (rest_threads cores) \<and> snd (reply_main run cores) = Hangs \<and>
   (header_fields parts_response = init_http_resp)"
  using parts_response_timeline
  by (simp add: reply_settings_def reply_threads_def rest_threads_def reply_main_def parts_response_def
      parts_get_def create_chunked_def remove_field_def init_http_resp_def)

end
