(* ===== verification/Retry.thy ===== *)
theory Retry
  imports Prelude
begin

section \<open>Loops that repeat a library call\<close>

text \<open>
  Several programs repeat a call of a library until its result says to stop: the TLS handshake,
  the \<^verbatim>\<open>LOOP_CHECK\<close> macro around the record calls, the search for an OCSP address.
  \<open>poll again f i\<close> is the loop whose \<open>n\<close>-th call answers \<open>f n\<close>, started at call \<open>i\<close>, with the number
  of the last call in the result. The loop need not end: then the value is \<open>None\<close>.
\<close>

partial_function (option) poll :: "('r \<Rightarrow> bool) \<Rightarrow> (nat \<Rightarrow> 'r) \<Rightarrow> nat \<Rightarrow> (nat \<times> 'r) option" where
  "poll again f i = (if again (f i) then poll again f (Suc i) else Some (i, f i))"

lemma poll_stop: "\<not> again (f i) \<Longrightarrow> poll again f i = Some (i, f i)"
  by (simp add: poll.simps)

lemma poll_again: "again (f i) \<Longrightarrow> poll again f i = poll again f (Suc i)"
  by (simp add: poll.simps)

lemma poll_first:
  assumes "\<not> again (f (i + n))" and "\<And>k. k < n \<Longrightarrow> again (f (i + k))"
  shows "poll again f i = Some (i + n, f (i + n))"
  using assms
proof (induction n arbitrary: i)
  case 0
  then show ?case by (simp add: poll_stop)
next
  case (Suc n)
  have "again (f i)" using Suc.prems(2) [of 0] by simp
  moreover have "poll again f (Suc i) = Some (Suc i + n, f (Suc i + n))"
    using Suc.prems(1) Suc.prems(2) [of "Suc k" for k] by (intro Suc.IH) simp_all
  ultimately show ?case by (simp add: poll_again)
qed

definition poll_post :: "('r \<Rightarrow> bool) \<Rightarrow> (nat \<Rightarrow> 'r) \<Rightarrow> nat \<Rightarrow> nat \<times> 'r \<Rightarrow> bool" where
  "poll_post again f i x \<longleftrightarrow>
     i \<le> fst x \<and> snd x = f (fst x) \<and> \<not> again (snd x) \<and> (\<forall>k. i \<le> k \<and> k < fst x \<longrightarrow> again (f k))"

lemma poll_post_holds:
  assumes "poll again f i = Some x"
  shows "poll_post again f i x"
proof (rule poll.raw_induct [where P = poll_post, OF _ assms])
  fix poll' and again :: "'r \<Rightarrow> bool" and f i x
  assume IH: "\<And>again f i x. poll' again f i = Some x \<Longrightarrow> poll_post again f i x"
    and eq: "(if again (f i) then poll' again f (Suc i) else Some (i, f i)) = Some x"
  show "poll_post again f i x"
  proof (cases "again (f i)")
    case True
    with eq have "poll_post again f (Suc i) x" by (intro IH) simp
    with True show ?thesis
      unfolding poll_post_def by (metis Suc_leD Suc_leI le_neq_implies_less)
  next
    case False
    with eq show ?thesis by (auto simp: poll_post_def)
  qed
qed

lemma poll_result:
  "poll again f i = Some (j, r) \<Longrightarrow>
     i \<le> j \<and> r = f j \<and> \<not> again (f j) \<and> (\<forall>k. i \<le> k \<and> k < j \<longrightarrow> again (f k))"
  using poll_post_holds [of again f i "(j, r)"] by (auto simp: poll_post_def)

lemma poll_returns_iff: "(\<exists>x. poll again f i = Some x) \<longleftrightarrow> (\<exists>n. \<not> again (f (i + n)))"
proof
  assume "\<exists>x. poll again f i = Some x"
  then obtain j r where "poll again f i = Some (j, r)" by auto
  from poll_result [OF this] have "\<not> again (f (i + (j - i)))" by simp
  then show "\<exists>n. \<not> again (f (i + n))" ..
next
  assume "\<exists>n. \<not> again (f (i + n))"
  then have "\<not> again (f (i + (LEAST n. \<not> again (f (i + n)))))" by (rule LeastI_ex)
  moreover have "again (f (i + k))" if "k < (LEAST n. \<not> again (f (i + n)))" for k
    using not_less_Least [OF that] by simp
  ultimately show "\<exists>x. poll again f i = Some x" using poll_first by blast
qed

end
