(* ===== verification/Ocsp.thy ===== *)
theory Ocsp
  imports Byte_Codec Retry Program_Run
begin

unbundle bit_operations_syntax

section \<open>The OCSP client (cpp/crypto/gnutls/ocsp.cpp)\<close>

text \<open>
  Loading the certificates, finding the responder's address, building the request, waiting for the
  HTTP response and checking it. GnuTLS and OpenDHT's HTTP client are libraries: what
  each call returns is an argument. A function that may end the process returns a value of
  \<open>outcome\<close> (see Program\_Run). The lines that report a result are kept as a list; the echo of
  the arguments, of the certificates' identifiers and of the HTTP message is not.
\<close>

subsection \<open>Outcomes and output\<close>

datatype line =
    Cannot_open string
  | Cannot_import string int
  | Loaded int
  | Call_failed string int
  | Empty_response
  | Response_text string
  | Nonce_sent string
  | Nonce_received string
  | Verification_success
  | Verification_error
  | Signer_not_found
  | Signer_keyusage
  | Signer_not_trusted
  | Insecure_algorithm
  | Signature_failure
  | Cert_not_activated
  | Cert_expired
  | Seq nat
  | No_uri
  | Aia_error int
  | Issuer_uri string
  | Rnd_failed int
  | Verified int
  | Success_line
  | Usage

subsection \<open>load\_cert\<close>

text \<open>
  A file that cannot be opened leaves the stream empty, so \<open>contents\<close> is the empty string.
  \<^verbatim>\<open>c_str()\<close> is never a null pointer: \<open>data\<close> is always \<open>Some\<close>. \<open>import_certs\<close> is
  \<^verbatim>\<open>gnutls_x509_crt_list_import2\<close>: its result and the list it allocates; the first
  element of the list is returned.
\<close>

definition data_pointer :: "string \<Rightarrow> string option" where
  "data_pointer contents = Some contents"

definition load_cert ::
  "(string \<Rightarrow> string option) \<Rightarrow> (string \<Rightarrow> int \<times> 'crt list) \<Rightarrow> string \<Rightarrow> (line, 'crt) run" where
  "load_cert read_file import_certs cert_file =
     (let contents = (case read_file cert_file of None \<Rightarrow> [] | Some s \<Rightarrow> s) in
      case data_pointer contents of
        None \<Rightarrow> ([Cannot_open cert_file], Exits 1)
      | Some data \<Rightarrow>
          (case import_certs data of (ret, crts) \<Rightarrow>
             if ret < 0 then ([Cannot_import cert_file ret], Exits 1)
             else (case crts of
                 [] \<Rightarrow> ([Loaded 0], Undefined_behaviour)
               | c # cs \<Rightarrow> ([Loaded (int (length crts))], Returns c))))"

subsection \<open>generate\_request\<close>

text \<open>The return values of the four calls and the exported request.\<close>

record request_answers =
  req_init :: int
  req_add_cert :: int
  req_set_nonce :: int
  req_export :: int
  req_data :: "u8 list"

definition generate_request :: "request_answers \<Rightarrow> u8 list option \<Rightarrow> (line, u8 list) run" where
  "generate_request a nonce =
     (if req_init a < 0 then ([Call_failed ''ocsp_req_init'' (req_init a)], Exits 1)
      else if req_add_cert a < 0
        then ([Call_failed ''ocsp_req_add_cert'' (req_add_cert a)], Exits 1)
      else if nonce \<noteq> None \<and> req_set_nonce a < 0
        then ([Call_failed ''ocsp_req_set_nonce'' (req_set_nonce a)], Exits 1)
      else if req_export a \<noteq> 0
        then ([Call_failed ''ocsp_req_export'' (req_export a)], Exits 1)
      else ([], Returns (req_data a)))"

subsection \<open>bytes\_to\_hex\_string\<close>

definition bytes_to_hex_string :: "u8 list \<Rightarrow> string" where
  "bytes_to_hex_string data = concat (map hex_byte data)"

subsection \<open>ocsp\_response\<close>

text \<open>The bits of GnuTLS's verification status, in the order the program tests them.\<close>

record verify_masks =
  signer_not_found :: u32
  signer_keyusage_error :: u32
  untrusted_signer :: u32
  insecure_algorithm :: u32
  signature_failure :: u32
  cert_not_activated :: u32
  cert_expired :: u32

definition flag_line :: "u32 \<Rightarrow> u32 \<Rightarrow> line \<Rightarrow> line list" where
  "flag_line verify flag l = (if verify AND flag \<noteq> 0 then [l] else [])"

definition verify_report :: "verify_masks \<Rightarrow> u32 \<Rightarrow> line list" where
  "verify_report m verify =
     (if verify = 0 then [Verification_success] else [Verification_error]) @
     flag_line verify (signer_not_found m) Signer_not_found @
     flag_line verify (signer_keyusage_error m) Signer_keyusage @
     flag_line verify (untrusted_signer m) Signer_not_trusted @
     flag_line verify (insecure_algorithm m) Insecure_algorithm @
     flag_line verify (signature_failure m) Signature_failure @
     flag_line verify (cert_not_activated m) Cert_not_activated @
     flag_line verify (cert_expired m) Cert_expired"

record response_answers =
  resp_init :: int
  resp_import :: int
  resp_print :: int
  resp_text :: string
  resp_check_crt :: int
  resp_get_nonce :: int
  resp_nonce :: "u8 list"
  resp_verify_direct :: int
  resp_verify :: u32

text \<open>
  The result is \<^verbatim>\<open>unsigned\<close> returned as \<^verbatim>\<open>int\<close>. The nonces are compared by length, then with
  \<^verbatim>\<open>memcmp\<close> over the length of the one that was sent.
\<close>

definition same_nonce :: "u8 list \<Rightarrow> u8 list \<Rightarrow> bool" where
  "same_nonce nonce rnonce \<longleftrightarrow>
     \<not> (length rnonce \<noteq> length nonce \<or> take (length nonce) rnonce \<noteq> nonce)"

definition ocsp_response ::
  "verify_masks \<Rightarrow> response_answers \<Rightarrow> string \<Rightarrow> u8 list \<Rightarrow> (line, int) run" where
  "ocsp_response m a data nonce =
     (if length data = 0 then ([Empty_response], Exits 1)
      else if resp_init a < 0 then ([Call_failed ''ocsp_resp_init'' (resp_init a)], Exits 1)
      else if resp_import a < 0
        then ([Call_failed ''ocsp_resp_import'' (resp_import a)], Exits 1)
      else if resp_print a < 0
        then ([Call_failed ''ocsp_resp_print'' (resp_print a)], Exits 1)
      else
        (let ls = [Response_text (resp_text a)] in
         if resp_check_crt a < 0
           then (ls @ [Call_failed ''ocsp_resp_check_crt'' (resp_check_crt a)], Exits 1)
         else if resp_get_nonce a < 0 then (ls, Exits 1)
         else
           (let ls2 = ls @ [Nonce_sent (bytes_to_hex_string nonce),
                            Nonce_received (bytes_to_hex_string (resp_nonce a))] in
            if \<not> same_nonce nonce (resp_nonce a) then (ls2, Exits 1)
            else if resp_verify_direct a < 0 then (ls2, Exits 1)
            else (ls2 @ verify_report m (resp_verify a), Returns (sint (resp_verify a))))))"

subsection \<open>The search for the responder's address\<close>

text \<open>
  The loop over \<open>seq\<close>: \<open>aia seq\<close> is the return value and the data of
  \<^verbatim>\<open>gnutls_x509_crt_get_authority_info_access\<close>; the two error numbers that the loop tests
  for are parameters. The loop goes on only after \<^verbatim>\<open>GNUTLS_E_UNKNOWN_ALGORITHM\<close>.
\<close>

record aia_errors =
  unknown_algorithm :: int
  not_available :: int

definition find_uri :: "aia_errors \<Rightarrow> (nat \<Rightarrow> int \<times> string) \<Rightarrow> (line, string) run" where
  "find_uri e aia =
     (case poll (\<lambda>(ret, tmp). ret = unknown_algorithm e) aia 0 of
        None \<Rightarrow> ([], Hangs)
      | Some (seq, (ret, tmp)) \<Rightarrow>
          (let ls = map Seq [0..<Suc seq] in
           if ret = not_available e then (ls @ [No_uri], Exits 1)
           else if ret < 0 then (ls @ [Aia_error ret], Exits 1)
           else (ls, Returns tmp)))"

subsection \<open>Waiting for the HTTP response\<close>

record http_response =
  status_code :: nat
  headers :: "(string \<times> string) list"
  body :: string

datatype req_state = Sending | Finished | Other_state nat

record http_wait =
  http_resp :: http_response
  timers :: nat
  http_stopped :: bool

definition on_state_change :: "req_state \<Rightarrow> http_response \<Rightarrow> http_wait \<Rightarrow> http_wait" where
  "on_state_change st response w =
     (let w1 = (if st = Sending then w\<lparr>timers := Suc (timers w)\<rparr> else w) in
      if st \<noteq> Finished then w1
      else w1\<lparr>http_resp := response, http_stopped := True\<rparr>)"

text \<open>
  \<^verbatim>\<open>io_context.run()\<close> under the work guard: the callback runs for each state change until it stops
  the context; if the library reports no end of the request, \<^verbatim>\<open>run()\<close> does not return.
\<close>

fun run_request :: "(req_state \<times> http_response) list \<Rightarrow> http_wait \<Rightarrow> http_response option" where
  "run_request [] w = None"
| "run_request ((st, r) # evs) w =
     (let w1 = on_state_change st r w in
      if http_stopped w1 then Some (http_resp w1) else run_request evs w1)"

definition no_response :: http_wait where
  "no_response =
     \<lparr>http_resp = \<lparr>status_code = 0, headers = [], body = []\<rparr>, timers = 0, http_stopped = False\<rparr>"

text \<open>\<^verbatim>\<open>http_resp.headers["Content-Length"]\<close> is the empty string when there is no such header.\<close>

definition header_value :: "http_response \<Rightarrow> string \<Rightarrow> string" where
  "header_value r k = (case map_of (headers r) k of None \<Rightarrow> [] | Some v \<Rightarrow> v)"

subsection \<open>main\<close>

text \<open>Everything the libraries answer during one run of the program.\<close>

record 'crt ocsp_env =
  global_init :: int
  read_file :: "string \<Rightarrow> string option"
  import_certs :: "string \<Rightarrow> int \<times> 'crt list"
  errors :: aia_errors
  aia :: "'crt \<Rightarrow> nat \<Rightarrow> int \<times> string"
  rnd :: int
  nonce :: "u8 list"
  request_of :: "'crt \<Rightarrow> 'crt \<Rightarrow> u8 list \<Rightarrow> request_answers"
  http_events :: "string \<Rightarrow> u8 list \<Rightarrow> (req_state \<times> http_response) list"
  masks :: verify_masks
  response_of :: "'crt \<Rightarrow> 'crt \<Rightarrow> string \<Rightarrow> response_answers"

text \<open>The exchange with the responder: the body, if a response came with a usable length.\<close>

definition fetch :: "(req_state \<times> http_response) list \<Rightarrow> (line, string) run" where
  "fetch evs =
     (case run_request evs no_response of
        None \<Rightarrow> ([], Hangs)
      | Some r \<Rightarrow>
          (case stoul (header_value r ''Content-Length'') of
             None \<Rightarrow> ([], Terminates)
           | Some n \<Rightarrow> ([], Returns (body r))))"

definition check_answer :: "'crt ocsp_env \<Rightarrow> 'crt \<Rightarrow> 'crt \<Rightarrow> string \<Rightarrow> (line, int) run" where
  "check_answer E cert signer data =
     then_run (ocsp_response (masks E) (response_of E cert signer data) data (nonce E))
       (\<lambda>v. then_run (print_lines [Verified v, Success_line]) (\<lambda>_. ([], Returns 0)))"

definition query :: "'crt ocsp_env \<Rightarrow> 'crt \<Rightarrow> 'crt \<Rightarrow> 'crt \<Rightarrow> string \<Rightarrow> (line, int) run" where
  "query E cert issuer signer uri =
     (if rnd E < 0 then ([Issuer_uri (c_str uri), Rnd_failed (rnd E)], Returns (- 1))
      else then_run (print_lines [Issuer_uri (c_str uri)]) (\<lambda>_.
        then_run (generate_request (request_of E cert issuer (nonce E)) (Some (nonce E))) (\<lambda>req.
        then_run (fetch (http_events E uri req)) (\<lambda>data.
        check_answer E cert signer data))))"

definition ocsp_main :: "'crt ocsp_env \<Rightarrow> string list \<Rightarrow> (line, int) run" where
  "ocsp_main E argv =
     (if length argv < 4 then ([Usage], Returns 1)
      else
        then_run (print_lines
          (if global_init E < 0 then [Call_failed ''gnutls_global_init'' (global_init E)] else []))
          (\<lambda>_.
        then_run (load_cert (read_file E) (import_certs E) (argv ! 1)) (\<lambda>cert.
        then_run (load_cert (read_file E) (import_certs E) (argv ! 2)) (\<lambda>issuer.
        then_run (load_cert (read_file E) (import_certs E) (argv ! 3)) (\<lambda>signer.
        then_run (find_uri (errors E) (aia E cert)) (\<lambda>uri.
        query E cert issuer signer uri))))))"

subsection \<open>Laws\<close>

lemma same_nonce_iff: "same_nonce n r \<longleftrightarrow> n = r"
  by (auto simp: same_nonce_def)

lemma ocsp_response_returns:
  "snd (ocsp_response m a data sent) = Returns v \<longleftrightarrow>
     data \<noteq> [] \<and> 0 \<le> resp_init a \<and> 0 \<le> resp_import a \<and> 0 \<le> resp_print a \<and>
     0 \<le> resp_check_crt a \<and> 0 \<le> resp_get_nonce a \<and> resp_nonce a = sent \<and>
     0 \<le> resp_verify_direct a \<and> v = sint (resp_verify a)"
  by (auto simp: ocsp_response_def same_nonce_iff Let_def)

lemma ocsp_response_exits:
  "snd (ocsp_response m a data sent) = Exits 1 \<or>
     snd (ocsp_response m a data sent) = Returns (sint (resp_verify a))"
  by (simp add: ocsp_response_def Let_def)

lemma find_uri_first:
  assumes "fst (lookup n) \<noteq> unknown_algorithm e"
    and "\<And>k. k < n \<Longrightarrow> fst (lookup k) = unknown_algorithm e"
  shows "find_uri e lookup =
    (let ls = map Seq [0..<Suc n]; ret = fst (lookup n) in
     if ret = not_available e then (ls @ [No_uri], Exits 1)
     else if ret < 0 then (ls @ [Aia_error ret], Exits 1)
     else (ls, Returns (snd (lookup n))))"
proof -
  have "poll (\<lambda>(ret, tmp). ret = unknown_algorithm e) lookup 0 = Some (n, lookup n)"
    using poll_first [of "\<lambda>(ret, tmp). ret = unknown_algorithm e" lookup 0 n] assms
    by (simp add: split_def)
  then show ?thesis by (simp add: find_uri_def split_def Let_def)
qed

lemma find_uri_hangs:
  "snd (find_uri e lookup) = Hangs \<longleftrightarrow> (\<forall>n. fst (lookup n) = unknown_algorithm e)"
proof -
  have "poll (\<lambda>(ret, tmp). ret = unknown_algorithm e) lookup 0 = None \<longleftrightarrow>
      (\<forall>n. fst (lookup n) = unknown_algorithm e)"
    using poll_returns_iff [of "\<lambda>(ret, tmp). ret = unknown_algorithm e" lookup 0]
    by (auto simp: split_def)
  then show ?thesis by (auto simp: find_uri_def Let_def split: option.splits)
qed

lemma load_cert_returns:
  "snd (load_cert rf imp f) = Returns c \<longleftrightarrow>
     (\<exists>ret cs. imp (case rf f of None \<Rightarrow> [] | Some s \<Rightarrow> s) = (ret, c # cs) \<and> 0 \<le> ret)"
  by (auto simp: load_cert_def data_pointer_def Let_def split: prod.splits list.splits)

section \<open>Properties of the OCSP client\<close>

text \<open>
  C34. \<^verbatim>\<open>bytes_to_hex_string\<close> prints every byte as two digits and loses nothing: the text is twice
  as long as the data, reading it back gives the data, and different data print differently.
\<close>

theorem bytes_to_hex_string_roundtrip:
  "length (bytes_to_hex_string data) = 2 * length data \<and>
   decode_all 2 byte_of_hex (length data) (bytes_to_hex_string data) = Some data \<and>
   (bytes_to_hex_string data = bytes_to_hex_string data') = (data = data')"
  by (simp only: bytes_to_hex_string_def hex.length_concat_enc hex.decode_all_enc
      hex.concat_enc_inject simp_thms)

text \<open>
  C7. What \<^verbatim>\<open>ocsp_response\<close> accepts: it returns only for a non-empty response that parses, is
  about the certificate, carries exactly the nonce that was sent and could be verified, and
  the value is then the verification status; in every other case it ends the process with 1.
\<close>

theorem ocsp_response_accepts:
  "(snd (ocsp_response m a data sent) = Returns v) =
     (data \<noteq> [] \<and> 0 \<le> resp_init a \<and> 0 \<le> resp_import a \<and> 0 \<le> resp_print a \<and>
      0 \<le> resp_check_crt a \<and> 0 \<le> resp_get_nonce a \<and> resp_nonce a = sent \<and>
      0 \<le> resp_verify_direct a \<and> v = sint (resp_verify a)) \<and>
   snd (ocsp_response m a data sent) \<in> {Exits 1, Returns (sint (resp_verify a))}"
  using ocsp_response_exits [of m a data sent] by (simp add: ocsp_response_returns)

text \<open>
  The report on the verification status: success is printed exactly for status 0, and then
  no complaint follows; otherwise each complaint is printed exactly when its bit is set.
\<close>

theorem verify_report_exact:
  "(Verification_success \<in> set (verify_report m v)) = (v = 0) \<and>
   (Verification_error \<in> set (verify_report m v)) = (v \<noteq> 0) \<and>
   verify_report m 0 = [Verification_success] \<and>
   (Signer_not_found \<in> set (verify_report m v)) = (v AND signer_not_found m \<noteq> 0) \<and>
   (Signer_keyusage \<in> set (verify_report m v)) = (v AND signer_keyusage_error m \<noteq> 0) \<and>
   (Signer_not_trusted \<in> set (verify_report m v)) = (v AND untrusted_signer m \<noteq> 0) \<and>
   (Insecure_algorithm \<in> set (verify_report m v)) = (v AND insecure_algorithm m \<noteq> 0) \<and>
   (Signature_failure \<in> set (verify_report m v)) = (v AND signature_failure m \<noteq> 0) \<and>
   (Cert_not_activated \<in> set (verify_report m v)) = (v AND cert_not_activated m \<noteq> 0) \<and>
   (Cert_expired \<in> set (verify_report m v)) = (v AND cert_expired m \<noteq> 0)"
  by (simp add: verify_report_def flag_line_def)

text \<open>
  The search for the responder's address takes the first entry that is not of an unknown kind:
  its address if the call succeeded, exit status 1 if it failed; and the loop runs for ever
  exactly when every entry is of an unknown kind.
\<close>

theorem find_uri_takes_first:
  assumes "\<And>k. k < n \<Longrightarrow> fst (lookup k) = unknown_algorithm e"
    and "fst (lookup n) \<noteq> unknown_algorithm e"
  shows "snd (find_uri e lookup) =
      (if fst (lookup n) = not_available e \<or> fst (lookup n) < 0 then Exits 1 else Returns (snd (lookup n))) \<and>
    (snd (find_uri e lookup') = Hangs) = (\<forall>k. fst (lookup' k) = unknown_algorithm e)"
  using find_uri_first [of lookup n e] assms by (simp add: find_uri_hangs Let_def)

theorem find_uri_takes_first_witness:
  "snd (find_uri \<lparr>unknown_algorithm = - 80, not_available = - 56\<rparr>
     (\<lambda>k. if k < 2 then (- 80, '''') else (0, ''http://ocsp''))) = Returns ''http://ocsp''"
  using find_uri_takes_first [of 2 "\<lambda>k. if k < 2 then (- 80, '''') else (0, ''http://ocsp'')"
      "\<lparr>unknown_algorithm = - 80, not_available = - 56\<rparr>" "\<lambda>k. (0, '''')"]
  by simp

text \<open>
  C13. Exit status 0 of the program means that the responder answered about the certificate with
  the nonce that was sent. It says nothing about the verification status: with the same library
  answers but any other status the program still prints its success line and exits with 0.
\<close>

theorem ocsp_main_exit_status:
  assumes "snd (ocsp_main E argv) = Returns 0"
  shows "(\<exists>cert signer data. data \<noteq> [] \<and>
      0 \<le> resp_check_crt (response_of E cert signer data) \<and>
      resp_nonce (response_of E cert signer data) = nonce E) \<and>
    Success_line \<in> set (fst (ocsp_main E argv)) \<and>
    snd (ocsp_main (E\<lparr>response_of := \<lambda>c s d. (response_of E c s d)\<lparr>resp_verify := v\<rparr>\<rparr>) argv)
      = Returns 0"
proof -
  let ?E = "E\<lparr>response_of := \<lambda>c s d. (response_of E c s d)\<lparr>resp_verify := v\<rparr>\<rparr>"
  have argc: "\<not> length argv < 4" using assms by (auto simp: ocsp_main_def)
  obtain cert issuer signer uri req data where stages:
    "snd (load_cert (read_file E) (import_certs E) (argv ! 1)) = Returns cert"
    "snd (load_cert (read_file E) (import_certs E) (argv ! 2)) = Returns issuer"
    "snd (load_cert (read_file E) (import_certs E) (argv ! 3)) = Returns signer"
    "snd (find_uri (errors E) (aia E cert)) = Returns uri"
    "\<not> rnd E < 0"
    "snd (generate_request (request_of E cert issuer (nonce E)) (Some (nonce E))) = Returns req"
    "snd (fetch (http_events E uri req)) = Returns data"
    "snd (check_answer E cert signer data) = Returns 0"
    using assms argc
    by (auto simp: ocsp_main_def then_run_Returns_iff query_def split: if_splits)
  have resp: "data \<noteq> [] \<and> 0 \<le> resp_check_crt (response_of E cert signer data) \<and>
      resp_nonce (response_of E cert signer data) = nonce E"
    using stages(8) by (auto simp: check_answer_def then_run_Returns_iff ocsp_response_returns)
  have "snd (check_answer ?E cert signer data) = Returns 0"
    using stages(8) by (simp add: check_answer_def then_run_Returns_iff ocsp_response_returns)
  then have other: "snd (ocsp_main ?E argv) = Returns 0"
    using stages(1-7) argc by (simp add: ocsp_main_def then_run_Returns_iff query_def)
  have "Success_line \<in> set (fst (check_answer E cert signer data))"
    using stages(8)
    by (auto simp: check_answer_def then_run_Returns_iff then_run_ls print_lines_def)
  then have "Success_line \<in> set (fst (ocsp_main E argv))"
    using stages(1-7) argc by (simp add: ocsp_main_def then_run_ls query_def)
  with resp other show ?thesis by blast
qed

definition sample_env :: "u32 \<Rightarrow> nat ocsp_env" where
  "sample_env v =
     \<lparr>global_init = 0, read_file = (\<lambda>f. Some f), import_certs = (\<lambda>s. (1, [length s])),
      errors = \<lparr>unknown_algorithm = - 80, not_available = - 56\<rparr>,
      aia = (\<lambda>c k. (0, ''http://ocsp'')), rnd = 0, nonce = [1, 2, 3],
      request_of = (\<lambda>c i n. \<lparr>req_init = 0, req_add_cert = 0, req_set_nonce = 0, req_export = 0,
                            req_data = n\<rparr>),
      http_events = (\<lambda>u r. [(Sending, \<lparr>status_code = 0, headers = [], body = []\<rparr>),
        (Finished, \<lparr>status_code = 200, headers = [(''Content-Length'', ''4'')], body = ''resp''\<rparr>)]),
      masks = \<lparr>signer_not_found = 1, signer_keyusage_error = 2, untrusted_signer = 4,
              insecure_algorithm = 8, signature_failure = 16, cert_not_activated = 32,
              cert_expired = 64\<rparr>,
      response_of = (\<lambda>c s d. \<lparr>resp_init = 0, resp_import = 0, resp_print = 0, resp_text = d,
        resp_check_crt = 0, resp_get_nonce = 0, resp_nonce = [1, 2, 3],
        resp_verify_direct = 0, resp_verify = v\<rparr>)\<rparr>"

theorem ocsp_main_exit_status_witness:
  "snd (ocsp_main (sample_env 0) [''ocsp'', ''c'', ''i'', ''s'']) = Returns 0 \<and>
   snd (ocsp_main (sample_env 16) [''ocsp'', ''c'', ''i'', ''s'']) = Returns 0"
proof -
  let ?argv = "[''ocsp'', ''c'', ''i'', ''s'']"
  have uri: "snd (find_uri (errors (sample_env 0)) (aia (sample_env 0) c)) = Returns ''http://ocsp''"
    for c by (simp add: sample_env_def find_uri_first [where n = 0])
  have "stoul ''4'' = Some 4"
    by (simp add: stoul_def is_space_def is_digit_def nat_of_dec_def digit_value_def)
  then have ok: "snd (ocsp_main (sample_env 0) ?argv) = Returns 0"
    using uri
    by (simp add: ocsp_main_def then_run_Returns_iff load_cert_returns query_def)
      (simp add: sample_env_def generate_request_def fetch_def on_state_change_def
        no_response_def header_value_def check_answer_def then_run_Returns_iff
        ocsp_response_returns)
  have "(sample_env 0)\<lparr>response_of := \<lambda>c s d. (response_of (sample_env 0) c s d)
      \<lparr>resp_verify := 16\<rparr>\<rparr> = sample_env 16"
    by (simp add: sample_env_def)
  with ocsp_main_exit_status [OF ok, of 16] ok show ?thesis by simp
qed

end
