(* ===== verification/Valid_Ca.thy ===== *)
theory Valid_Ca
  imports Program_Run Retry Cpp_Std
begin

section \<open>The TLS client that validates a CA (cpp/crypto/gnutls/valid\_ca.cpp)\<close>

text \<open>
  \<^verbatim>\<open>main\<close> opens a socket, sets up a GnuTLS session with \<^verbatim>\<open>CHECK\<close>ed calls, connects, repeats the
  handshake until it succeeds or fails for good, and exchanges one request and one response
  with the \<^verbatim>\<open>LOOP_CHECK\<close> macro. What the system and GnuTLS answer is the record \<open>tls_env\<close>; the
  \<open>n\<close>-th repetition of a call gets the \<open>n\<close>-th answer.
\<close>

datatype line =
    Usage
  | Socket_error
  | Invalid_address
  | Connection_failed
  | Cert_verify_output
  | Handshake_failed int
  | Session_info
  | False_start bool
  | Todo_x509
  | Transport_auth_failure
  | Unsupported_credential int
  | Send_failed int
  | Recv_failed int
  | Received int string
  | Success_line

record tls_env =
  socket_fd :: int
  pton :: "string \<Rightarrow> int"
  set_up :: "int list"
  connect_result :: int
  handshake :: "nat \<Rightarrow> int"
  fatal :: "int \<Rightarrow> bool"
  verification_error :: int
  status_print :: int
  false_start :: bool
  auth_type :: int
  crd_certificate :: int
  e_again :: int
  e_interrupted :: int
  record_send :: "string \<Rightarrow> nat \<Rightarrow> int"
  record_recv :: "nat \<Rightarrow> int"
  recv_buffer :: string

subsection \<open>The loops\<close>

definition handshake_loop :: "tls_env \<Rightarrow> (line, int) run" where
  "handshake_loop E =
     (case poll (\<lambda>ret. ret < 0 \<and> \<not> fatal E ret) (handshake E) 0 of
        None \<Rightarrow> ([], Hangs)
      | Some (n, ret) \<Rightarrow> ([], Returns ret))"

definition loop_check :: "tls_env \<Rightarrow> (nat \<Rightarrow> int) \<Rightarrow> (line, int) run" where
  "loop_check E cmd =
     (case poll (\<lambda>rval. rval = e_again E \<or> rval = e_interrupted E) cmd 0 of
        None \<Rightarrow> ([], Hangs)
      | Some (n, rval) \<Rightarrow> then_run (check rval) (\<lambda>_. ([], Returns rval)))"

subsection \<open>The request\<close>

text \<open>\<^verbatim>\<open>snprintf\<close> into 4096 bytes keeps at most 4095 characters; \<^verbatim>\<open>strlen(buf)\<close> of them are sent.\<close>

definition request_buffer :: "string \<Rightarrow> string" where
  "request_buffer host =
     take 4095 (''GET / HTTP/1.1'' @ crlf @ ''Host: '' @ c_str host @ crlf @ crlf)"

text \<open>\<^verbatim>\<open>htons(port)\<close>, stored in memory: the high byte first. The \<^verbatim>\<open>int\<close> is converted to 16 bits.\<close>

definition sin_port :: "int \<Rightarrow> u8 list" where
  "sin_port port = [ucast (drop_bit 8 (to_u16 port)), ucast (to_u16 port)]"

subsection \<open>main\<close>

definition report_handshake :: "tls_env \<Rightarrow> int \<Rightarrow> (line, unit) run" where
  "report_handshake E ret =
     (if ret < 0 then
        then_run (if ret = verification_error E
                  then then_run (check (status_print E)) (\<lambda>_. print_lines [Cert_verify_output])
                  else print_lines [])
          (\<lambda>_. print_lines [Handshake_failed ret])
      else print_lines [Session_info, False_start (false_start E)])"

definition report_credentials :: "tls_env \<Rightarrow> (line, unit) run" where
  "report_credentials E =
     (if auth_type E = crd_certificate E then print_lines [Todo_x509]
      else if auth_type E = - 1 then print_lines [Transport_auth_failure]
      else print_lines [Unsupported_credential (auth_type E)])"

definition exchange :: "tls_env \<Rightarrow> string \<Rightarrow> (line, int) run" where
  "exchange E host =
     then_run (loop_check E (record_send E (request_buffer host))) (\<lambda>ret.
       if ret < 0 then ([Send_failed ret], Returns 1)
       else then_run (loop_check E (record_recv E)) (\<lambda>ret.
         if ret < 0 then ([Recv_failed ret], Returns 1)
         else then_run (print_lines (if ret > 0 then [Received ret (take (nat ret) (recv_buffer E))]
                                     else []))
           (\<lambda>_. ([Success_line], Returns 0))))"

definition valid_ca_main :: "tls_env \<Rightarrow> string list \<Rightarrow> (line, int) run" where
  "valid_ca_main E argv =
     (if length argv < 5 then ([Usage], Returns 1)
      else case atoi (argv ! 2) of None \<Rightarrow> ([], Undefined_behaviour)
        | Some port \<Rightarrow>
      (if socket_fd E < 0 then ([Socket_error], Returns 1)
       else if pton E (argv ! 1) \<le> 0 then ([Invalid_address], Returns 1)
       else
         then_run (check_all (set_up E)) (\<lambda>_.
         if connect_result E < 0 then ([Connection_failed], Returns 1)
         else
           then_run (handshake_loop E) (\<lambda>ret.
           then_run (report_handshake E ret) (\<lambda>_.
           then_run (report_credentials E) (\<lambda>_.
           exchange E (argv ! 1)))))))"

subsection \<open>Laws\<close>

lemma handshake_loop_returns:
  "snd (handshake_loop E) = Returns ret \<longleftrightarrow>
     (\<exists>n. ret = handshake E n \<and> (0 \<le> ret \<or> fatal E ret) \<and>
        (\<forall>k < n. handshake E k < 0 \<and> \<not> fatal E (handshake E k)))"
proof
  assume "snd (handshake_loop E) = Returns ret"
  then obtain n where "poll (\<lambda>ret. ret < 0 \<and> \<not> fatal E ret) (handshake E) 0 = Some (n, ret)"
    by (auto simp: handshake_loop_def split: option.splits)
  from poll_result [OF this]
  show "\<exists>n. ret = handshake E n \<and> (0 \<le> ret \<or> fatal E ret) \<and>
      (\<forall>k < n. handshake E k < 0 \<and> \<not> fatal E (handshake E k))"
    by (intro exI [of _ n]) auto
next
  assume "\<exists>n. ret = handshake E n \<and> (0 \<le> ret \<or> fatal E ret) \<and>
      (\<forall>k < n. handshake E k < 0 \<and> \<not> fatal E (handshake E k))"
  then obtain n where n: "ret = handshake E n" "0 \<le> ret \<or> fatal E ret"
      "\<forall>k < n. handshake E k < 0 \<and> \<not> fatal E (handshake E k)" by blast
  then have "poll (\<lambda>ret. ret < 0 \<and> \<not> fatal E ret) (handshake E) 0 = Some (n, ret)"
    using poll_first [of "\<lambda>ret. ret < 0 \<and> \<not> fatal E ret" "handshake E" 0 n] by auto
  then show "snd (handshake_loop E) = Returns ret" by (simp add: handshake_loop_def)
qed

lemma loop_check_returns:
  assumes "snd (loop_check E cmd) = Returns r"
  shows "0 \<le> r \<and> r \<noteq> e_again E \<and> r \<noteq> e_interrupted E \<and> (\<exists>n. r = cmd n)"
proof -
  obtain n where p: "poll (\<lambda>rval. rval = e_again E \<or> rval = e_interrupted E) cmd 0 = Some (n, r)"
    and "0 \<le> r"
    using assms by (auto simp: loop_check_def then_run_Returns_iff split: option.splits)
  from poll_result [OF p] \<open>0 \<le> r\<close> show ?thesis by auto
qed

lemma fst_loop_check [simp]: "fst (loop_check E cmd) = []"
  by (auto simp: loop_check_def then_run_def split: option.splits outcome.splits)

lemma fst_handshake_loop [simp]: "fst (handshake_loop E) = []"
  by (auto simp: handshake_loop_def split: option.splits)

lemma exchange_returns:
  "snd (exchange E host) = Returns x \<longleftrightarrow>
     x = 0 \<and> (\<exists>r. snd (loop_check E (record_send E (request_buffer host))) = Returns r) \<and>
     (\<exists>r. snd (loop_check E (record_recv E)) = Returns r)"
  by (auto simp: exchange_def then_run_Returns_iff dest: loop_check_returns split: if_splits)
    (metis leD loop_check_returns)+

lemma handshake_loop_hangs:
  "snd (handshake_loop E) = Hangs \<longleftrightarrow> (\<forall>n. handshake E n < 0 \<and> \<not> fatal E (handshake E n))"
proof -
  have "poll (\<lambda>ret. ret < 0 \<and> \<not> fatal E ret) (handshake E) 0 = None \<longleftrightarrow>
      (\<forall>n. handshake E n < 0 \<and> \<not> fatal E (handshake E n))"
    using poll_returns_iff [of "\<lambda>ret. ret < 0 \<and> \<not> fatal E ret" "handshake E" 0]
    by (metis (mono_tags, lifting) add_0 not_None_eq)
  then show ?thesis by (auto simp: handshake_loop_def split: option.splits)
qed



lemma report_credentials_returns [simp]: "snd (report_credentials E) = Returns x"
  by (simp add: report_credentials_def)

lemma no_send_recv_failed:
  "Send_failed r \<notin> set (fst (exchange E host)) \<and> Recv_failed r \<notin> set (fst (exchange E host))"
  by (auto simp: exchange_def then_run_ls dest: loop_check_returns split: if_splits)

section \<open>Properties of the TLS client\<close>


text \<open>
  The error branches after \<^verbatim>\<open>LOOP_CHECK\<close> are dead: the macro asserts that the result is not
  negative, so neither \<^verbatim>\<open>send failed\<close> nor \<^verbatim>\<open>recv failed\<close> is ever printed, and the exchange
  returns only with 0.
\<close>

theorem valid_ca_dead_branches:
  "Send_failed r \<notin> set (fst (valid_ca_main E argv)) \<and>
   Recv_failed r \<notin> set (fst (valid_ca_main E argv)) \<and>
   (snd (exchange E host) = Returns x) = (x = 0 \<and> snd (exchange E host) = Returns 0)"
  using no_send_recv_failed
  by (auto simp: valid_ca_main_def then_run_ls report_handshake_def report_credentials_def
      exchange_returns split: option.splits)

text \<open>A server whose handshake is interrupted once.\<close>

definition interrupted_once :: tls_env where
  "interrupted_once =
     \<lparr>socket_fd = 3, pton = (\<lambda>s. 1), set_up = [0], connect_result = 0,
      handshake = (\<lambda>n. if n = 0 then - 52 else 0), fatal = (\<lambda>e. e < - 60), verification_error = - 348,
      status_print = 0, false_start = False, auth_type = 1, crd_certificate = 1, e_again = - 28,
      e_interrupted = - 52, record_send = (\<lambda>s n. 0), record_recv = (\<lambda>n. 0), recv_buffer = []\<rparr>"

text \<open>
  C40. The handshake loop ends with the first answer that is a success or a fatal error, and runs
  for ever exactly when every answer is a non-fatal error.
\<close>

theorem handshake_loop_ends:
  "(snd (handshake_loop E) = Returns ret) =
     (\<exists>n. ret = handshake E n \<and> (0 \<le> ret \<or> fatal E ret) \<and>
        (\<forall>k \<in> {..<n}. handshake E k < 0 \<and> \<not> fatal E (handshake E k))) \<and>
   (snd (handshake_loop E) = Hangs) =
     (\<forall>n. handshake E n < 0 \<and> \<not> fatal E (handshake E n))"
  by (simp add: handshake_loop_returns handshake_loop_hangs Ball_def)

theorem handshake_loop_ends_witness:
  "snd (handshake_loop interrupted_once) = Returns 0"
proof -
  have "handshake interrupted_once 0 < 0" "\<not> fatal interrupted_once (handshake interrupted_once 0)"
    "handshake interrupted_once 1 = 0"
    by (simp_all add: interrupted_once_def)
  then have "\<exists>n. 0 = handshake interrupted_once n \<and> (0 \<le> (0::int) \<or> fatal interrupted_once 0) \<and>
      (\<forall>k \<in> {..<n}. handshake interrupted_once k < 0 \<and>
         \<not> fatal interrupted_once (handshake interrupted_once k))"
    by (intro exI [of _ 1]) simp
  then show ?thesis using handshake_loop_ends [of interrupted_once 0] by blast
qed

text \<open>
  The request is sent whole and the port in network order: for a host of at most 4069
  characters the buffer ends with the empty line, it never holds more than 4095 characters, and
  the two bytes of \<^verbatim>\<open>sin_port\<close> are the port modulo 65536, high byte first.
\<close>

theorem valid_ca_request:
  "length (request_buffer host) \<le> 4095 \<and>
   (suffix (crlf @ crlf) (request_buffer (take 4069 host))) \<and>
   map unat (sin_port (int n)) = [n mod 65536 div 256, n mod 256]"
proof -
  have "length (c_str (take 4069 host)) \<le> 4069"
    using length_c_str_le [of "take 4069 host"] by simp
  then have "request_buffer (take 4069 host) =
      ''GET / HTTP/1.1'' @ crlf @ ''Host: '' @ c_str (take 4069 host) @ crlf @ crlf"
    by (simp add: request_buffer_def)
  then have "suffix (crlf @ crlf) (request_buffer (take 4069 host))"
    by (simp add: suffix_def)
  moreover have "map unat (sin_port (int n)) = [n mod 65536 div 256, n mod 256]"
  proof -
    have "unat (to_u16 (int n)) = n mod 65536" by (rule unat_to_u16)
    then show ?thesis
      using less_mult_imp_div_less [of "n mod 65536" 256 256]
      by (simp add: sin_port_def unsigned_ucast_eq drop_bit_eq_div unat_div_distrib
          take_bit_eq_mod mod_mod_cancel)
  qed
  ultimately show ?thesis by (simp add: request_buffer_def)
qed

end
