(* ===== verification/Cond_Wait.thy ===== *)
theory Cond_Wait
  imports Prelude
begin

section \<open>Waiting on a condition variable\<close>

text \<open>
  \<^verbatim>\<open>cv.wait_for(lock, limit, pred)\<close> as \<open>putget.cpp\<close> and \<open>dhtclient.cpp\<close> use it: the predicate reads
  a flag that a callback sets on another thread, without taking the mutex, and then notifies.
  The standard library evaluates the predicate; if it is false the thread enters the wait, and
  a notification reaches it only from then on; when it is woken the predicate is evaluated again, and
  after the time limit once more for the result.
\<close>

datatype wait_pc = Checking | About_to_block | Blocked | Timed_out | Returned bool

inductive wait_step :: "bool \<Rightarrow> wait_pc \<Rightarrow> wait_pc \<Rightarrow> bool" for flag :: bool where
  found: "flag \<Longrightarrow> wait_step flag Checking (Returned True)"
| not_yet: "\<not> flag \<Longrightarrow> wait_step flag Checking About_to_block"
| block: "wait_step flag About_to_block Blocked"
| spurious: "wait_step flag Blocked Checking"
| limit: "wait_step flag Blocked Timed_out"
| verdict: "wait_step flag Timed_out (Returned flag)"

code_pred wait_step .

inductive_cases wait_stepE: "wait_step flag p q"
inductive_simps wait_step_Checking: "wait_step flag Checking q"
inductive_simps wait_step_Blocked: "wait_step flag Blocked q"
inductive_simps wait_step_Returned: "wait_step flag (Returned b) q"
inductive_simps wait_step_to_Returned: "wait_step flag p (Returned b)"

definition notify :: "wait_pc \<Rightarrow> wait_pc" where
  "notify p = (if p = Blocked then Checking else p)"

text \<open>The result of a wait is the value of the flag at the moment it returns.\<close>

lemma wait_result: "wait_step flag p (Returned b) \<Longrightarrow> b = flag"
  by (auto simp: wait_step_to_Returned)

text \<open>A flag that is set before the wait begins makes it return at once.\<close>

lemma wait_set: "wait_step True Checking q \<longleftrightarrow> q = Returned True"
  by (auto simp: wait_step_Checking)

lemma notify_Returned [simp]: "notify p = Returned b \<longleftrightarrow> p = Returned b"
  by (auto simp: notify_def)

lemma notify_simps [simp]:
  "notify Blocked = Checking" "notify Checking = Checking" "notify About_to_block = About_to_block"
  "notify Timed_out = Timed_out" "notify (Returned b) = Returned b"
  by (simp_all add: notify_def)

end
