(* ===== verification/Putget.thy ===== *)
theory Putget
  imports Cond_Wait Step_Machine "HOL-Library.Word"
begin

section \<open>Putting values on the DHT and getting them back (cpp/opendht/putget.cpp)\<close>

text \<open>
  \<^verbatim>\<open>main\<close> puts one value per argument; each \<^verbatim>\<open>put\<close> leaves a callback with the node, which runs on the
  node's thread: it sets \<^verbatim>\<open>node_action\<close> and notifies. After each \<^verbatim>\<open>put\<close> the main thread waits
  for the flag. The loop variable is an \<^verbatim>\<open>int8_t\<close>. The two threads are a step relation; a
  callback is named by the number of its \<^verbatim>\<open>put\<close>.
\<close>

datatype main_pc = Loop_head | Waiting wait_pc | Getting | Undefined

record putget =
  loop_i :: "8 word"
  node_action :: bool
  at :: main_pc
  stored :: "string list"
  pending :: "nat set"
  notifying :: "nat set"
  confirmed :: "nat set"
  results :: "bool list"

text \<open>The start of the loop; \<^verbatim>\<open>InfoHash::get(argv[1])\<close> before it needs an argument.\<close>

definition start :: "string list \<Rightarrow> putget" where
  "start argv =
     \<lparr>loop_i = 2, node_action = False, at = (if length argv < 2 then Undefined else Loop_head),
      stored = [], pending = {}, notifying = {}, confirmed = {}, results = []\<rparr>"

definition loop_test :: "string list \<Rightarrow> putget \<Rightarrow> bool" where
  "loop_test argv s \<longleftrightarrow> sint (loop_i s) < int (length argv)"

definition do_put :: "string list \<Rightarrow> putget \<Rightarrow> putget" where
  "do_put argv s =
     s\<lparr>stored := stored s @ [argv ! nat (sint (loop_i s))],
       pending := insert (length (stored s)) (pending s), at := Waiting Checking\<rparr>"

definition next_round :: "bool \<Rightarrow> putget \<Rightarrow> putget" where
  "next_round b s = s\<lparr>results := results s @ [b], loop_i := loop_i s + 1, at := Loop_head\<rparr>"

definition set_action :: "nat \<Rightarrow> putget \<Rightarrow> putget" where
  "set_action k s =
     s\<lparr>pending := pending s - {k}, notifying := insert k (notifying s),
       confirmed := insert k (confirmed s), node_action := True\<rparr>"

definition notify_all :: "nat \<Rightarrow> putget \<Rightarrow> putget" where
  "notify_all k s =
     s\<lparr>notifying := notifying s - {k},
       at := (case at s of Waiting p \<Rightarrow> Waiting (notify p) | q \<Rightarrow> q)\<rparr>"

inductive putget_step :: "string list \<Rightarrow> putget \<Rightarrow> putget \<Rightarrow> bool" for argv :: "string list" where
  put: "at s = Loop_head \<Longrightarrow> loop_test argv s \<Longrightarrow> 0 \<le> sint (loop_i s) \<Longrightarrow>
     putget_step argv s (do_put argv s)"
| wild: "at s = Loop_head \<Longrightarrow> loop_test argv s \<Longrightarrow> sint (loop_i s) < 0 \<Longrightarrow>
     putget_step argv s (s\<lparr>at := Undefined\<rparr>)"
| leave: "at s = Loop_head \<Longrightarrow> \<not> loop_test argv s \<Longrightarrow> putget_step argv s (s\<lparr>at := Getting\<rparr>)"
| wait: "at s = Waiting p \<Longrightarrow> wait_step (node_action s) p q \<Longrightarrow>
     putget_step argv s (s\<lparr>at := Waiting q\<rparr>)"
| round: "at s = Waiting (Returned b) \<Longrightarrow> putget_step argv s (next_round b s)"
| callback_set: "k \<in> pending s \<Longrightarrow> putget_step argv s (set_action k s)"
| callback_notify: "k \<in> notifying s \<Longrightarrow> putget_step argv s (notify_all k s)"

abbreviation putget_reach :: "string list \<Rightarrow> putget \<Rightarrow> bool" where
  "putget_reach argv \<equiv> reaches (putget_step argv) (start argv)"

text \<open>What the program prints: each value up to its first NUL.\<close>

definition print_values :: "string list \<Rightarrow> string list" where
  "print_values values = map c_str values"

lemma print_values_exact: "list_all (\<lambda>v. NUL \<notin> set v) vs \<Longrightarrow> print_values vs = vs"
  by (induction vs) (simp_all add: print_values_def c_str_id)

declare do_put_def [step_defs] next_round_def [step_defs] set_action_def [step_defs]
  notify_all_def [step_defs]

subsection \<open>The counter\<close>

text \<open>
  While the counter has not passed 127 it is two more than the number of finished rounds.
\<close>

definition rounds :: "putget \<Rightarrow> nat" where
  "rounds s = length (results s)"

definition in_round :: "putget \<Rightarrow> nat" where
  "in_round s = (case at s of Waiting p \<Rightarrow> 1 | _ \<Rightarrow> 0)"

definition putget_inv :: "string list \<Rightarrow> putget \<Rightarrow> bool" where
  "putget_inv argv s \<longleftrightarrow>
     (if length argv < 2 then at s = Undefined else
      loop_i s = of_nat (rounds s + 2) \<and> rounds s \<le> 126 \<and>
      stored s = take (rounds s + in_round s) (drop 2 argv) \<and>
      rounds s + in_round s \<le> length argv - 2 \<and>
      (at s = Undefined \<longrightarrow> rounds s = 126 \<and> 128 \<le> length argv) \<and>
      (at s = Getting \<longrightarrow> rounds s = length argv - 2 \<and> length argv \<le> 127) \<and>
      (in_round s = 1 \<longrightarrow> rounds s \<le> 125))"

text \<open>What the threads have said so far about the flag.\<close>

definition flag_inv :: "putget \<Rightarrow> bool" where
  "flag_inv s \<longleftrightarrow>
     (node_action s \<longleftrightarrow> confirmed s \<noteq> {}) \<and> sorted (results s) \<and>
     (True \<in> set (results s) \<longrightarrow> node_action s) \<and> (at s = Waiting (Returned True) \<longrightarrow> node_action s) \<and>
     (at s = Waiting (Returned False) \<longrightarrow> True \<notin> set (results s)) \<and>
     confirmed s \<union> pending s = {..<length (stored s)} \<and> confirmed s \<inter> pending s = {} \<and>
     notifying s \<subseteq> confirmed s"

subsection \<open>Every step keeps both\<close>

lemma sint_counter: "n \<le> 127 \<Longrightarrow> sint (of_nat n :: 8 word) = int n"
  by (simp add: sint_uint unsigned_of_nat take_bit_nat_eq_self signed_take_bit_int_eq_self)

lemma sint_128: "sint (128 :: 8 word) = - 128"
  by simp

lemma loop_test_iff:
  assumes "putget_inv argv s" and "2 \<le> length argv"
  shows "loop_test argv s \<longleftrightarrow> rounds s = 126 \<or> rounds s + 2 < length argv"
    and "sint (loop_i s) = (if rounds s = 126 then - 128 else int (rounds s + 2))"
proof -
  have r: "loop_i s = of_nat (rounds s + 2)" "rounds s \<le> 126"
    using assms by (simp_all add: putget_inv_def)
  have "sint (loop_i s) = (if rounds s = 126 then - 128 else int (rounds s + 2))"
  proof (cases "rounds s = 126")
    case True
    then show ?thesis by (simp add: r(1))
  next
    case False
    with r(2) have "rounds s + 2 \<le> 127" by simp
    from sint_counter [OF this] False show ?thesis by (simp add: r(1) del: of_nat_add)
  qed
  then show "sint (loop_i s) = (if rounds s = 126 then - 128 else int (rounds s + 2))"
    and "loop_test argv s \<longleftrightarrow> rounds s = 126 \<or> rounds s + 2 < length argv"
    by (auto simp: loop_test_def)
qed

lemma in_round_simps [simp]:
  "at s = Waiting p \<Longrightarrow> in_round s = 1" "at s = Loop_head \<Longrightarrow> in_round s = 0"
  "at s = Getting \<Longrightarrow> in_round s = 0" "at s = Undefined \<Longrightarrow> in_round s = 0"
  by (simp_all add: in_round_def)

lemma putget_inv_start: "putget_inv argv (start argv)"
  by (simp add: putget_inv_def start_def rounds_def in_round_def)

lemma putget_inv_step:
  assumes "putget_step argv s t" and "putget_inv argv s"
  shows "putget_inv argv t"
proof (cases "length argv < 2")
  case True
  from assms(1) show ?thesis
    by (cases rule: putget_step.cases)
      (use True assms(2) in \<open>auto simp: putget_inv_def step_defs\<close>)
next
  case long: False
  then have argc: "2 \<le> length argv" by simp
  note test = loop_test_iff [OF assms(2) argc]
  from assms(1) show ?thesis
  proof (cases rule: putget_step.cases)
    case put
    then have r: "rounds s < 126" "rounds s + 2 < length argv"
      using test assms(2) by (auto simp: putget_inv_def split: if_splits)
    then have "nat (sint (loop_i s)) = 2 + rounds s" using test(2) by simp
    then have "argv ! nat (sint (loop_i s)) = drop 2 argv ! rounds s" using r(2) by simp
    then have "stored t = take (Suc (rounds s)) (drop 2 argv)"
      using put assms(2) r(2) long
      by (simp add: putget_inv_def do_put_def take_Suc_conv_app_nth del: nth_drop)
    then show ?thesis using put r assms(2) long
      by (auto simp: putget_inv_def do_put_def rounds_def in_round_def)
  next
    case wild
    then have "rounds s = 126" using test(2) by (simp split: if_splits)
    then show ?thesis using wild assms(2) long by (auto simp: putget_inv_def rounds_def in_round_def)
  next
    case leave
    then have "rounds s \<noteq> 126 \<and> length argv \<le> rounds s + 2" using test(1) by auto
    then show ?thesis using leave assms(2) long by (auto simp: putget_inv_def rounds_def in_round_def)
  next
    case (wait p q)
    then show ?thesis using assms(2) long by (auto simp: putget_inv_def rounds_def in_round_def)
  next
    case (round b)
    then show ?thesis using assms(2) long
      by (auto simp: putget_inv_def rounds_def in_round_def next_round_def)
  next
    case (callback_set k)
    then show ?thesis using assms(2) long
      by (auto simp: putget_inv_def rounds_def in_round_def set_action_def)
  next
    case (callback_notify k)
    then show ?thesis using assms(2) long
      by (auto simp: putget_inv_def rounds_def in_round_def notify_all_def split: main_pc.splits)
  qed
qed

lemma flag_inv_start: "flag_inv (start argv)"
  by (simp add: flag_inv_def start_def)

lemma sorted_snoc: "sorted xs \<Longrightarrow> (b = False \<Longrightarrow> True \<notin> set xs) \<Longrightarrow> sorted (xs @ [b])"
  by (auto simp: sorted_append) (metis (full_types))

lemma flag_inv_step:
  assumes "putget_step argv s t" and "flag_inv s"
  shows "flag_inv t"
  using assms(1)
proof (cases rule: putget_step.cases)
  case put
  then show ?thesis using assms(2) by (auto simp: flag_inv_def do_put_def lessThan_Suc)
next
  case (wait p q)
  then show ?thesis using assms(2) by (auto simp: flag_inv_def dest: wait_result)
next
  case (round b)
  then have "sorted (results s @ [b])"
    using assms(2) by (intro sorted_snoc) (auto simp: flag_inv_def)
  then show ?thesis using round assms(2) by (auto simp: flag_inv_def next_round_def)
next
  case (callback_set k)
  then show ?thesis using assms(2) by (auto simp: flag_inv_def set_action_def)
next
  case (callback_notify k)
  then show ?thesis using assms(2)
    by (auto simp: flag_inv_def notify_all_def split: main_pc.splits)
qed (use assms(2) in \<open>auto simp: flag_inv_def\<close>)

interpretation putget: step_machine "putget_step argv" "start argv" "\<lambda>s. putget_inv argv s \<and> flag_inv s"
  for argv
  by unfold_locales (auto intro: putget_inv_start flag_inv_start putget_inv_step flag_inv_step)

lemmas putget_reach_inv = putget.reach_inv

subsection \<open>Runs of the main thread\<close>

text \<open>With the flag set, a round of the main thread is a put, one test of the flag, and the next.\<close>

lemma quick_round:
  assumes "putget_reach argv s" and "at s = Loop_head" and "node_action s"
    and "rounds s + 2 < length argv" and "length argv \<le> 127"
  shows "putget_reach argv (next_round True ((do_put argv s)\<lparr>at := Waiting (Returned True)\<rparr>))"
proof -
  have inv: "putget_inv argv s" using putget_reach_inv [OF assms(1)] by simp
  have argc: "2 \<le> length argv" using assms(4) by simp
  have "rounds s \<noteq> 126" using assms(4,5) by simp
  then have "loop_test argv s" and "0 \<le> sint (loop_i s)"
    using loop_test_iff [OF inv argc] assms(4) by simp_all
  then have "putget_reach argv (do_put argv s)"
    using assms(1,2) by (auto intro: reaches.one_more putget_step.put)
  moreover have "putget_step argv (do_put argv s) ((do_put argv s)\<lparr>at := Waiting (Returned True)\<rparr>)"
    by (rule putget_step.wait [where p = Checking]) (simp_all add: do_put_def assms(3) wait_step_Checking)
  moreover have "putget_step argv ((do_put argv s)\<lparr>at := Waiting (Returned True)\<rparr>)
      (next_round True ((do_put argv s)\<lparr>at := Waiting (Returned True)\<rparr>))"
    by (rule putget_step.round) simp
  ultimately show ?thesis by (blast intro: reaches.one_more)
qed

lemma first_put:
  assumes "3 \<le> length argv" and "length argv \<le> 127"
  shows "putget_reach argv (do_put argv (start argv))"
proof (rule reaches_step, rule putget_step.put)
  show "at (start argv) = Loop_head" "loop_test argv (start argv)" "0 \<le> sint (loop_i (start argv))"
    using assms by (simp_all add: start_def loop_test_def)
qed

lemma confirmed_first:
  assumes "3 \<le> length argv" and "length argv \<le> 127" and "m \<le> length argv - 3"
  shows "\<exists>s. putget_reach argv s \<and> at s = Loop_head \<and> node_action s \<and> confirmed s = {0} \<and>
    results s = replicate (Suc m) True"
  using assms(3)
proof (induction m)
  case 0
  let ?s1 = "do_put argv (start argv)"
  let ?s2 = "set_action 0 ?s1"
  have "putget_reach argv ?s2"
    by (rule reaches.one_more [OF first_put [OF assms(1,2)]], rule putget_step.callback_set)
      (simp add: do_put_def start_def)
  then have "putget_reach argv (?s2\<lparr>at := Waiting (Returned True)\<rparr>)"
    by (rule reaches.one_more, intro putget_step.wait [where p = Checking])
      (simp_all add: set_action_def do_put_def wait_step_Checking)
  then have "putget_reach argv (next_round True (?s2\<lparr>at := Waiting (Returned True)\<rparr>))"
    by (rule reaches.one_more, intro putget_step.round) simp
  then show ?case
    by (intro exI [of _ "next_round True (?s2\<lparr>at := Waiting (Returned True)\<rparr>)"])
      (simp add: next_round_def set_action_def do_put_def start_def)
next
  case (Suc m)
  then obtain s where s: "putget_reach argv s" "at s = Loop_head" "node_action s" "confirmed s = {0}"
    "results s = replicate (Suc m) True" by auto
  let ?t = "next_round True ((do_put argv s)\<lparr>at := Waiting (Returned True)\<rparr>)"
  have "rounds s + 2 < length argv" using s(5) Suc.prems assms(1) by (simp add: rounds_def)
  then have "putget_reach argv ?t" using quick_round s assms(2) by blast
  moreover have "results ?t = replicate (Suc (Suc m)) True"
    using s(5) by (simp add: next_round_def do_put_def replicate_append_same)
  ultimately show ?case using s by (intro exI [of _ ?t]) (simp add: next_round_def do_put_def)
qed

lemma putget_progress:
  assumes "putget_reach argv s" and "at s \<noteq> Getting" and "at s \<noteq> Undefined"
  shows "\<exists>t. putget_step argv s t"
proof (cases "at s")
  case Loop_head
  then show ?thesis using putget_step.intros(1-3) [of s argv] by (meson not_le_imp_less)
next
  case (Waiting p)
  then show ?thesis
    using putget_step.wait [OF Waiting] putget_step.round [of s] wait_step.intros
    by (cases p) (metis (full_types))+
qed (use assms in auto)

section \<open>Properties\<close>

text \<open>
  C12. Every value of the command line is put, once and in order, before \<^verbatim>\<open>get\<close> runs, and this
  is so exactly when there are at most 127 arguments: with more, and with no key, no run gets to
  \<^verbatim>\<open>get\<close>; the \<^verbatim>\<open>int8_t\<close> counter wraps to -128 after 126 values and \<^verbatim>\<open>argv\<close> is read out of
  bounds. No reachable state of the two threads is stuck before one of these ends.
\<close>

theorem putget_values_in_order:
  assumes "putget_reach argv s"
  shows "(at s = Getting \<longrightarrow> stored s = drop 2 argv \<and> 2 \<le> length argv \<and> length argv \<le> 127) \<and>
    (at s = Undefined \<longrightarrow>
       length argv < 2 \<or> 128 \<le> length argv \<and> stored s = take 126 (drop 2 argv)) \<and>
    (at s = Getting \<or> at s = Undefined \<or> (\<exists>t. putget_step argv s t))"
  using putget_reach_inv [OF assms] putget_progress [OF assms]
  by (auto simp: putget_inv_def split: if_splits)

theorem putget_values_in_order_witness:
  "let argv = [''putget'', ''key'']; s = (start argv)\<lparr>at := Getting\<rparr>
   in putget_reach argv s \<and> stored s = drop 2 argv \<and> length argv \<le> 127"
proof -
  let ?argv = "[''putget'', ''key'']"
  have "putget_step ?argv (start ?argv) ((start ?argv)\<lparr>at := Getting\<rparr>)"
    by (rule putget_step.leave) (simp_all add: start_def loop_test_def)
  then have "putget_reach ?argv ((start ?argv)\<lparr>at := Getting\<rparr>)"
    by (rule reaches_step)
  with putget_values_in_order [OF this] show ?thesis by (simp add: Let_def)
qed

text \<open>
  C11. The flag is never reset, so only the first confirmation is waited for: the results
  of the waits are \<^verbatim>\<open>false\<close> up to some round and \<^verbatim>\<open>true\<close> from then on; and for every command line of
  one to 125 values there is a run in which all the waits succeed and \<^verbatim>\<open>get\<close> is reached although
  the node has confirmed the first \<^verbatim>\<open>put\<close> only.
\<close>

theorem putget_waits_for_first_only:
  "(putget_reach argv s \<longrightarrow> sorted (results s) \<and> (True \<in> set (results s) \<longrightarrow> confirmed s \<noteq> {})) \<and>
   (3 \<le> length argv \<longrightarrow> length argv \<le> 127 \<longrightarrow>
     (\<exists>t. putget_reach argv t \<and> at t = Getting \<and> confirmed t = {0} \<and>
        results t = replicate (length argv - 2) True))"
proof -
  have first: "sorted (results s) \<and> (True \<in> set (results s) \<longrightarrow> confirmed s \<noteq> {})"
    if "putget_reach argv s"
    using putget_reach_inv [OF that] by (auto simp: flag_inv_def)
  have second: "\<exists>t. putget_reach argv t \<and> at t = Getting \<and> confirmed t = {0} \<and>
      results t = replicate (length argv - 2) True"
    if argc: "3 \<le> length argv" "length argv \<le> 127"
  proof -
    obtain t where t: "putget_reach argv t" "at t = Loop_head" "confirmed t = {0}"
        "results t = replicate (Suc (length argv - 3)) True"
      using confirmed_first [OF argc le_refl] by auto
    have "2 \<le> length argv" using argc by simp
    moreover have inv: "putget_inv argv t" using putget_reach_inv [OF t(1)] by simp
    moreover have "rounds t = length argv - 2" using t(4) argc by (simp add: rounds_def)
    ultimately have "\<not> loop_test argv t" using loop_test_iff(1) [OF inv] argc by linarith
    then have "putget_reach argv (t\<lparr>at := Getting\<rparr>)"
      using t by (auto intro: reaches.one_more putget_step.leave)
    moreover have "Suc (length argv - 3) = length argv - 2" using argc by simp
    ultimately show ?thesis
      using t by (intro exI [of _ "t\<lparr>at := Getting\<rparr>"]) simp
  qed
  from first second show ?thesis by blast
qed

theorem putget_waits_for_first_only_witness:
  "\<exists>t. putget_reach [''putget'', ''key'', ''a'', ''b''] t \<and> at t = Getting \<and> confirmed t = {0} \<and>
     results t = [True, True]"
  using putget_waits_for_first_only [of "[''putget'', ''key'', ''a'', ''b'']"]
  by (simp add: numeral_2_eq_2)

text \<open>
  C22. The callback does not take the mutex, so its notification can be lost: a state is
  reachable in which the flag is set, every callback has run to its end, and the main thread
  is blocked; from there it goes on only by a spurious wake-up or the ten-second limit.
\<close>

theorem putget_lost_wakeup:
  "\<exists>s. putget_reach [''putget'', ''key'', ''value''] s \<and> node_action s \<and> confirmed s = {0} \<and>
     pending s = {} \<and> notifying s = {} \<and> at s = Waiting Blocked \<and>
     Collect (putget_step [''putget'', ''key'', ''value''] s) =
        {s\<lparr>at := Waiting Checking\<rparr>, s\<lparr>at := Waiting Timed_out\<rparr>}"
proof -
  let ?argv = "[''putget'', ''key'', ''value'']"
  let ?s1 = "do_put ?argv (start ?argv)"
  let ?s2 = "?s1\<lparr>at := Waiting About_to_block\<rparr>"
  let ?s3 = "notify_all 0 (set_action 0 ?s2)"
  let ?s4 = "?s3\<lparr>at := Waiting Blocked\<rparr>"
  have "putget_reach ?argv ?s1" by (rule first_put) simp_all
  then have "putget_reach ?argv ?s2"
    by (rule reaches.one_more, intro putget_step.wait [where p = Checking])
      (simp_all add: do_put_def start_def wait_step_Checking)
  then have "putget_reach ?argv (set_action 0 ?s2)"
    by (rule reaches.one_more, intro putget_step.callback_set) (simp add: do_put_def start_def)
  then have "putget_reach ?argv ?s3"
    by (rule reaches.one_more, intro putget_step.callback_notify) (simp add: set_action_def)
  then have "putget_reach ?argv ?s4"
    by (rule reaches.one_more, intro putget_step.wait [where p = About_to_block])
      (simp_all add: notify_all_def set_action_def wait_step.block)
  moreover have "t = ?s4\<lparr>at := Waiting Checking\<rparr> \<or> t = ?s4\<lparr>at := Waiting Timed_out\<rparr>"
    if "putget_step ?argv ?s4 t" for t
    using that
    by (cases rule: putget_step.cases)
      (auto simp: wait_step_Blocked step_defs start_def)
  moreover have "putget_step ?argv ?s4 (?s4\<lparr>at := Waiting q\<rparr>)" if "q = Checking \<or> q = Timed_out" for q
    using that by (intro putget_step.wait [where p = Blocked]) (auto intro: wait_step.intros)
  ultimately show ?thesis
    by (intro exI [of _ ?s4])
      (auto simp: step_defs start_def)
qed

end
