(* ===== verification/Dht_Client.thy ===== *)
theory Dht_Client
  imports Cond_Wait Step_Machine
begin

section \<open>The DHT proxy client (cpp/opendht/dhtclient.cpp)\<close>

text \<open>
  \<^verbatim>\<open>main\<close> registers a listener, puts a value and waits for its callback, gets the values and waits,
  and at last waits for the listener, each wait on a flag of its own and all of them on one
  condition variable. The callbacks run on the threads of the client library, set their flag without the
  mutex and call \<^verbatim>\<open>notify_one\<close>.
\<close>

datatype flag = Done_put | Done_get | Done_listen

datatype client_pc = Start | Listening | Waiting flag wait_pc | Finished | Undefined

record dht_client =
  at :: client_pc
  flags :: "flag set"
  registered :: "flag set"
  notifying :: "flag list"
  outcomes :: "(flag \<times> bool) list"

text \<open>\<^verbatim>\<open>InfoHash::get(argv[1])\<close> needs an argument.\<close>

definition start :: "string list \<Rightarrow> dht_client" where
  "start argv =
     \<lparr>at = (if length argv < 2 then Undefined else Start), flags = {}, registered = {},
      notifying = [], outcomes = []\<rparr>"

text \<open>What follows a wait: the \<^verbatim>\<open>get\<close> after the first, nothing new after the second, the return after
  the third.\<close>

fun after :: "flag \<Rightarrow> dht_client \<Rightarrow> dht_client" where
  "after Done_put c = c\<lparr>registered := insert Done_get (registered c), at := Waiting Done_get Checking\<rparr>"
| "after Done_get c = c\<lparr>at := Waiting Done_listen Checking\<rparr>"
| "after Done_listen c = c\<lparr>at := Finished\<rparr>"

definition send_listen :: "dht_client \<Rightarrow> dht_client" where
  "send_listen c = c\<lparr>registered := insert Done_listen (registered c), at := Listening\<rparr>"

definition send_put :: "dht_client \<Rightarrow> dht_client" where
  "send_put c = c\<lparr>registered := insert Done_put (registered c), at := Waiting Done_put Checking\<rparr>"

text \<open>
  A done callback runs once; the listener stays registered, its callback returns \<^verbatim>\<open>true\<close>.
\<close>

definition run_callback :: "flag \<Rightarrow> dht_client \<Rightarrow> dht_client" where
  "run_callback f c =
     c\<lparr>flags := insert f (flags c), notifying := f # notifying c,
       registered := (if f = Done_listen then registered c else registered c - {f})\<rparr>"

definition notify_one :: "flag \<Rightarrow> dht_client \<Rightarrow> dht_client" where
  "notify_one f c =
     c\<lparr>notifying := remove1 f (notifying c),
       at := (case at c of Waiting g p \<Rightarrow> Waiting g (notify p) | q \<Rightarrow> q)\<rparr>"

inductive client_step :: "dht_client \<Rightarrow> dht_client \<Rightarrow> bool" where
  listen: "at c = Start \<Longrightarrow> client_step c (send_listen c)"
| put: "at c = Listening \<Longrightarrow> client_step c (send_put c)"
| wait: "at c = Waiting f p \<Longrightarrow> wait_step (f \<in> flags c) p q \<Longrightarrow>
     client_step c (c\<lparr>at := Waiting f q\<rparr>)"
| goes_on: "at c = Waiting f (Returned b) \<Longrightarrow>
     client_step c (after f (c\<lparr>outcomes := outcomes c @ [(f, b)]\<rparr>))"
| callback: "f \<in> registered c \<Longrightarrow> at c \<noteq> Finished \<Longrightarrow> client_step c (run_callback f c)"
| callback_notify: "f \<in> set (notifying c) \<Longrightarrow> at c \<noteq> Finished \<Longrightarrow> client_step c (notify_one f c)"

abbreviation client_reach :: "string list \<Rightarrow> dht_client \<Rightarrow> bool" where
  "client_reach argv \<equiv> reaches client_step (start argv)"

subsection \<open>Invariant\<close>

definition client_order :: "flag list" where
  "client_order = [Done_put, Done_get, Done_listen]"

text \<open>The waits that are over, as the place of the main thread tells them.\<close>

fun waits_over :: "client_pc \<Rightarrow> nat" where
  "waits_over Start = 0"
| "waits_over Listening = 0"
| "waits_over (Waiting Done_put p) = 0"
| "waits_over (Waiting Done_get p) = 1"
| "waits_over (Waiting Done_listen p) = 2"
| "waits_over Finished = 3"
| "waits_over Undefined = 0"

definition client_inv :: "dht_client \<Rightarrow> bool" where
  "client_inv c \<longleftrightarrow>
     map fst (outcomes c) = take (waits_over (at c)) client_order \<and>
     (\<forall>(f, b) \<in> set (outcomes c). b \<longrightarrow> f \<in> flags c) \<and>
     (\<forall>f. at c = Waiting f (Returned True) \<longrightarrow> f \<in> flags c) \<and>
     (Done_get \<in> flags c \<union> registered c \<longrightarrow> 1 \<le> waits_over (at c))"

lemma notify_at:
  "at (notify_one f c) = Waiting g (Returned b) \<longleftrightarrow> at c = Waiting g (Returned b)"
  "waits_over (at (notify_one f c)) = waits_over (at c)"
  by (auto simp: notify_one_def split: client_pc.splits)
    (metis (full_types) flag.exhaust waits_over.simps(3-5))

lemma waits_over_same: "waits_over (Waiting f p) = waits_over (Waiting f q)"
  by (cases f) simp_all

lemma dhtclient_inv_step:
  assumes "client_step c d" and "client_inv c"
  shows "client_inv d"
  using assms(1)
proof (cases rule: client_step.cases)
  case listen
  then show ?thesis using assms(2) by (auto simp: client_inv_def send_listen_def)
next
  case put
  then show ?thesis using assms(2) by (auto simp: client_inv_def send_put_def)
next
  case (wait f p q)
  then show ?thesis
    using assms(2) waits_over_same [of f p q] by (auto simp: client_inv_def dest: wait_result)
next
  case (goes_on f b)
  then show ?thesis using assms(2)
    by (cases f) (auto simp: client_inv_def client_order_def)
next
  case (callback f)
  then show ?thesis using assms(2) by (auto simp: client_inv_def run_callback_def)
next
  case (callback_notify f)
  then show ?thesis using assms(2) notify_at [of f c]
    by (simp add: client_inv_def) (simp add: notify_one_def)
qed

lemma client_inv_start: "client_inv (start argv)"
  by (simp add: client_inv_def start_def)

interpretation dht_client: step_machine client_step "start argv" client_inv for argv
  by unfold_locales (auto intro: client_inv_start dhtclient_inv_step)

lemmas client_reach_inv = dht_client.reach_inv

subsection \<open>No state is stuck\<close>

lemma wait_progress: "(\<exists>b. p = Returned b) \<or> (\<exists>q. wait_step flag p q)"
  by (cases p; cases flag) (auto intro: wait_step.intros)

lemma client_progress: "at c = Finished \<or> at c = Undefined \<or> (\<exists>d. client_step c d)"
proof (cases "at c")
  case (Waiting f p)
  then show ?thesis using wait_progress [of p "f \<in> flags c"] by (blast intro: client_step.intros)
qed (auto intro: client_step.intros)

lemma after_defined: "at (after f c) \<noteq> Undefined"
  by (cases f) simp_all

lemma client_undefined_step: "client_step c d \<Longrightarrow> at d = Undefined \<Longrightarrow> at c = Undefined"
  by (cases rule: client_step.cases)
    (auto simp: send_listen_def send_put_def run_callback_def notify_one_def after_defined split: client_pc.splits)

lemma client_undefined: "client_reach argv c \<Longrightarrow> at c = Undefined \<longrightarrow> length argv < 2"
  by (erule dht_client.reach_stays) (auto simp: start_def dest: client_undefined_step)

section \<open>Properties\<close>

text \<open>
  C32. However the callbacks interleave with the main thread: the waits end in the order put,
  get, listen; the get is sent only after the first wait is over; and a wait that succeeds
  had its callback run. The program goes on until all three are over, whatever their results, unless it was started
  without an argument.
\<close>

theorem dhtclient_waits_in_order:
  assumes "client_reach argv c"
  shows "map fst (outcomes c) = take (length (outcomes c)) [Done_put, Done_get, Done_listen] \<and>
    list_all (\<lambda>(f, b). b \<longrightarrow> f \<in> flags c) (outcomes c) \<and>
    (Done_get \<in> registered c \<longrightarrow> 1 \<le> length (outcomes c)) \<and>
    (at c = Finished \<longrightarrow> length (outcomes c) = 3) \<and>
    (at c = Finished \<or> at c = Undefined \<and> length argv < 2 \<or> (\<exists>d. client_step c d))"
proof -
  have inv: "client_inv c" using client_reach_inv [OF assms] .
  have "waits_over (at c) \<le> 3" by (cases "at c" rule: waits_over.cases) simp_all
  moreover have "length (map fst (outcomes c)) = length (take (waits_over (at c)) client_order)"
    using inv by (simp only: client_inv_def)
  ultimately have "length (outcomes c) = waits_over (at c)" by (simp add: client_order_def)
  moreover have "at c = Undefined \<longrightarrow> length argv < 2" using client_undefined [OF assms] .
  ultimately show ?thesis using inv client_progress [of c] by (auto simp: client_inv_def client_order_def list_all_iff)
qed

theorem dhtclient_waits_in_order_witness:
  "let c = send_put (send_listen (start [''c'', ''k'']))
   in client_reach [''c'', ''k''] c \<and> map fst (outcomes c) = [] \<and> Done_get \<notin> registered c"
proof -
  have "client_reach [''c'', ''k''] (send_listen (start [''c'', ''k'']))"
    by (rule reaches_step, rule client_step.listen) (simp add: start_def)
  then have reach: "client_reach [''c'', ''k''] (send_put (send_listen (start [''c'', ''k''])))"
    by (rule reaches_trans, intro reaches_step client_step.put) (simp add: send_listen_def)
  have "outcomes (send_put (send_listen (start [''c'', ''k'']))) = []"
    by (simp add: send_put_def send_listen_def start_def)
  with dhtclient_waits_in_order [OF reach] reach show ?thesis by (auto simp: Let_def)
qed

end
