(* ===== verification/Memory.thy ===== *)
theory Memory
  imports Prelude "HOL-Library.Monad_Syntax"
begin

section \<open>The store of the pointer programs\<close>

text \<open>
  Memory is a collection of blocks, each made by a declaration or by \<^verbatim>\<open>new\<close>. A cell that was never
  written is indeterminate (\<open>None\<close>). An operation whose behaviour is undefined (a cell outside
  its block, a block that is not alive, the value of an indeterminate cell) has no result.
  The locale states what the programs rely on; which identity a new block gets is left open.
\<close>

fun for_loop :: "(nat \<Rightarrow> 'h \<Rightarrow> 'h option) \<Rightarrow> nat list \<Rightarrow> 'h \<Rightarrow> 'h option" where
  "for_loop f [] h = Some h"
| "for_loop f (i # is) h = Option.bind (f i h) (for_loop f is)"

lemma for_loop_append:
  "for_loop f (is @ js) h = Option.bind (for_loop f is h) (for_loop f js)"
  by (induction "is" arbitrary: h) (auto split: Option.bind_splits)

lemma for_loop_inv:
  assumes "P 0 h" and "\<And>i h. i < n \<Longrightarrow> P i h \<Longrightarrow> \<exists>h'. f i h = Some h' \<and> P (Suc i) h'"
  shows "\<exists>h'. for_loop f [0..<n] h = Some h' \<and> P n h'"
  using assms(2)
proof (induction n)
  case 0
  then show ?case using assms(1) by simp
next
  case (Suc n)
  then obtain h1 where "for_loop f [0..<n] h = Some h1" "P n h1" by auto
  moreover obtain h2 where "f n h1 = Some h2" "P (Suc n) h2"
    using Suc.prems \<open>P n h1\<close> by blast
  ultimately show ?case by (simp add: for_loop_append)
qed

locale block_memory =
  fixes new_block :: "nat \<Rightarrow> 'h \<Rightarrow> nat \<times> 'h"
    and store :: "nat \<Rightarrow> nat \<Rightarrow> 'v \<Rightarrow> 'h \<Rightarrow> 'h option"
    and free :: "nat \<Rightarrow> 'h \<Rightarrow> 'h option"
    and block :: "'h \<Rightarrow> nat \<Rightarrow> 'v option list option"
    and ok :: "'h \<Rightarrow> bool"
  assumes new_ok: "ok h \<Longrightarrow> new_block n h = (b, h') \<Longrightarrow>
      ok h' \<and> block h b = None \<and> block h' = (block h)(b \<mapsto> replicate n None)"
    and store_ok: "ok h \<Longrightarrow> block h b = Some vs \<Longrightarrow> i < length vs \<Longrightarrow>
      \<exists>h'. store b i v h = Some h' \<and> ok h' \<and> block h' = (block h)(b \<mapsto> vs[i := Some v])"
    and store_outside: "block h b = Some vs \<Longrightarrow> length vs \<le> i \<Longrightarrow> store b i v h = None"
    and free_ok: "ok h \<Longrightarrow> block h b = Some vs \<Longrightarrow>
      \<exists>h'. free b h = Some h' \<and> ok h' \<and> block h' = (block h)(b := None)"
    and free_dead: "block h b = None \<Longrightarrow> free b h = None"
begin

text \<open>Writing the first \<open>n\<close> cells of a block one after the other.\<close>

lemma fill_block:
  assumes "ok h" and "block h b = Some vs" and "n \<le> length vs"
  shows "\<exists>h'. for_loop (\<lambda>j. store b j (f j)) [0..<n] h = Some h' \<and> ok h' \<and>
    block h' = (block h)(b \<mapsto> map (\<lambda>j. Some (f j)) [0..<n] @ drop n vs)"
proof -
  define P where "P k g \<longleftrightarrow> ok g \<and>
    block g = (block h)(b \<mapsto> map (\<lambda>j. Some (f j)) [0..<k] @ drop k vs)" for k g
  have "P 0 h" using assms(1,2) by (simp add: P_def fun_upd_idem)
  moreover have "\<exists>g'. store b k (f k) g = Some g' \<and> P (Suc k) g'" if k: "k < n" and "P k g" for k g
  proof -
    let ?vs = "map (\<lambda>j. Some (f j)) [0..<k] @ drop k vs"
    have "?vs[k := Some (f k)] = map (\<lambda>j. Some (f j)) [0..<Suc k] @ drop (Suc k) vs"
      using k assms(3) by (simp add: list_update_append Cons_nth_drop_Suc [symmetric])
    moreover have "block g b = Some ?vs" "k < length ?vs" "ok g"
      using \<open>P k g\<close> k assms(3) by (simp_all add: P_def)
    ultimately show ?thesis using store_ok [of g b ?vs k "f k"] \<open>P k g\<close> by (auto simp: P_def)
  qed
  ultimately show ?thesis using for_loop_inv [of P h n] by (simp add: P_def)
qed

text \<open>A second \<^verbatim>\<open>delete\<close> of the same block is undefined.\<close>

lemma free_twice: "ok h \<Longrightarrow> free b h = Some h' \<Longrightarrow> free b h' = None"
  using free_ok [of h b] free_dead [of h b] free_dead [of h' b] by (cases "block h b") auto

end

subsection \<open>The model\<close>

text \<open>Blocks are numbered in the order they are made and a number is not used again.\<close>

record 'v heap =
  blocks :: "nat \<Rightarrow> 'v option list option"
  next_block :: nat

definition empty_heap :: "'v heap" where
  "empty_heap = \<lparr>blocks = (\<lambda>b. None), next_block = 0\<rparr>"

definition new_block :: "nat \<Rightarrow> 'v heap \<Rightarrow> nat \<times> 'v heap" where
  "new_block n h =
     (next_block h,
      h\<lparr>blocks := (blocks h)(next_block h \<mapsto> replicate n None), next_block := Suc (next_block h)\<rparr>)"

definition load :: "nat \<Rightarrow> nat \<Rightarrow> 'v heap \<Rightarrow> 'v option" where
  "load b i h =
     (case blocks h b of None \<Rightarrow> None | Some vs \<Rightarrow> if i < length vs then vs ! i else None)"

definition store :: "nat \<Rightarrow> nat \<Rightarrow> 'v \<Rightarrow> 'v heap \<Rightarrow> 'v heap option" where
  "store b i v h =
     (case blocks h b of None \<Rightarrow> None
      | Some vs \<Rightarrow>
          if i < length vs then Some (h\<lparr>blocks := (blocks h)(b \<mapsto> vs[i := Some v])\<rparr>) else None)"

definition free :: "nat \<Rightarrow> 'v heap \<Rightarrow> 'v heap option" where
  "free b h =
     (case blocks h b of None \<Rightarrow> None
      | Some vs \<Rightarrow> Some (h\<lparr>blocks := (blocks h)(b := None)\<rparr>))"

definition heap_ok :: "'v heap \<Rightarrow> bool" where
  "heap_ok h \<longleftrightarrow> (\<forall>b. blocks h b \<noteq> None \<longrightarrow> b < next_block h)"

declare new_block_def [step_defs] store_def [step_defs] free_def [step_defs] heap_ok_def [inv_defs]

interpretation mem: block_memory new_block store free blocks heap_ok
  by unfold_locales (auto simp: step_defs inv_defs less_SucI split: if_splits)

end
