(* ===== verification/Pointer_Programs.thy ===== *)
theory Pointer_Programs
  imports Memory
begin

section \<open>Pointers and arrays (cpp/pointers.cpp, cpp/arrays.cpp, cpp/array\_2d.cpp)\<close>

text \<open>
  The three programs over the memory of theory Memory. A cell holds an \<^verbatim>\<open>int\<close> or the address of a block;
  what a program prints is the list of values and addresses.
\<close>

datatype val = Num int | Addr nat

subsection \<open>pointers.cpp\<close>

text \<open>A pointer is a null pointer or the address of a block of one \<^verbatim>\<open>int\<close>.\<close>

type_synonym ptr = "nat option"

definition deref :: "ptr \<Rightarrow> val heap \<Rightarrow> val option" where
  "deref p h = Option.bind p (\<lambda>b. load b 0 h)"

definition assign :: "ptr \<Rightarrow> val \<Rightarrow> val heap \<Rightarrow> val heap option" where
  "assign p v h = Option.bind p (\<lambda>b. store b 0 v h)"

definition delete :: "ptr \<Rightarrow> val heap \<Rightarrow> val heap option" where
  "delete p h = (case p of None \<Rightarrow> Some h | Some b \<Rightarrow> free b h)"

text \<open>\<^verbatim>\<open>print\<close>: the six lines, each a label and what is printed after it.\<close>

definition print_vars :: "val \<Rightarrow> val \<Rightarrow> ptr \<Rightarrow> ptr \<Rightarrow> val heap \<Rightarrow> (string \<times> val) list option" where
  "print_vars v1 v2 p1 p2 h =
     do { a1 \<leftarrow> p1; a2 \<leftarrow> p2; x1 \<leftarrow> deref p1 h; x2 \<leftarrow> deref p2 h;
          Some [(''v1'', v1), (''v2'', v2), (''*p1'', Addr a1), (''*p2'', Addr a2),
                (''p1'', x1), (''p2'', x2)] }"

text \<open>The two variables are blocks of their own, released at the end of the scope.\<close>

definition local_pointers :: "val heap \<Rightarrow> ((string \<times> val) list list \<times> val heap) option" where
  "local_pointers h0 =
     (let (v1, ha) = new_block 1 h0; (v2, hb) = new_block 1 ha in
      do { hc \<leftarrow> store v1 0 (Num 1) hb;
           hd1 \<leftarrow> store v2 0 (Num 2) hc;
           let p1 = Some v1;
           let p2 = Some v2;
           x1 \<leftarrow> load v1 0 hd1; x2 \<leftarrow> load v2 0 hd1;
           out1 \<leftarrow> print_vars x1 x2 p1 p2 hd1;
           let p2 = p1;
           x \<leftarrow> deref p1 hd1;
           he \<leftarrow> assign p2 x hd1;
           x1 \<leftarrow> load v1 0 he; x2 \<leftarrow> load v2 0 he;
           out2 \<leftarrow> print_vars x1 x2 p1 p2 he;
           let (n1, hf) = new_block 1 he;
           hg \<leftarrow> delete (Some n1) hf;
           let p1 = None;
           hh \<leftarrow> delete p1 hg;
           let (n2, hi) = new_block 1 hh;
           hj \<leftarrow> store n2 0 (Num 3) hi;
           let p1 = Some n2;
           x1 \<leftarrow> load v1 0 hj; x2 \<leftarrow> load v2 0 hj;
           out3 \<leftarrow> print_vars x1 x2 p1 p2 hj;
           hk \<leftarrow> free v1 hj;
           hl \<leftarrow> free v2 hk;
           Some ([out1, out2, out3], hl) })"

text \<open>\<^verbatim>\<open>dynamic_pointers\<close> is empty, and \<^verbatim>\<open>main\<close> does not call it; the status is what \<^verbatim>\<open>main\<close> returns.\<close>

definition dynamic_pointers :: "val heap \<Rightarrow> (unit \<times> val heap) option" where
  "dynamic_pointers h = Some ((), h)"

definition pointers_main :: "val heap \<Rightarrow> ((string \<times> val) list list \<times> int \<times> val heap) option" where
  "pointers_main h = map_option (\<lambda>(out, h'). (out, 0, h')) (local_pointers h)"

subsection \<open>arrays.cpp\<close>

text \<open>
  A pointer into an array is the block and the index of the element; adding \<open>n\<close> moves it by \<open>n\<close>
  elements. \<open>sizeof_int\<close> is \<^verbatim>\<open>sizeof(int)\<close>.
\<close>

definition ptr_add :: "nat \<times> nat \<Rightarrow> nat \<Rightarrow> nat \<times> nat" where
  "ptr_add p n = (fst p, snd p + n)"

definition first_addresses :: "nat \<Rightarrow> nat \<Rightarrow> (nat \<times> nat) list" where
  "first_addresses a sizeof_int = [(a, 0), (a, 0), ptr_add (a, 0) sizeof_int]"

text \<open>\<^verbatim>\<open>a == b == c\<close> compares the truth value of \<^verbatim>\<open>a == b\<close> with \<open>c\<close>.\<close>

definition chained_equal :: "int \<Rightarrow> int \<Rightarrow> int \<Rightarrow> bool" where
  "chained_equal v1 v2 v3 = ((if v1 = v2 then 1 else 0) = v3)"

definition both_equal :: "int \<Rightarrow> int \<Rightarrow> int \<Rightarrow> bool" where
  "both_equal v1 v2 v3 = (v1 = v2 \<and> v1 = v3)"

definition load_int :: "nat \<times> nat \<Rightarrow> val heap \<Rightarrow> int option" where
  "load_int p h = (case load (fst p) (snd p) h of Some (Num x) \<Rightarrow> Some x | _ \<Rightarrow> None)"

text \<open>The comparisons on an array \<open>a\<close>: what the two \<^verbatim>\<open>Result\<close> lines say.\<close>

definition compare_elements :: "nat \<Rightarrow> nat \<Rightarrow> val heap \<Rightarrow> (bool \<times> bool) option" where
  "compare_elements sizeof_int a h =
     do { v1 \<leftarrow> load_int (a, 1) h;
          v2 \<leftarrow> load_int (ptr_add (a, 0) sizeof_int) h;
          v3 \<leftarrow> load_int (ptr_add (a, 0) sizeof_int) h;
          Some (chained_equal v1 v2 v3, both_equal v1 v2 v3) }"

definition arrays_main :: "nat \<Rightarrow> val heap \<Rightarrow> ((bool \<times> bool) \<times> val heap) option" where
  "arrays_main sizeof_int h =
     (let (a, h1) = new_block 10 h in
      Option.bind (compare_elements sizeof_int a h1) (\<lambda>r. Some (r, h1)))"

subsection \<open>array\_2d.cpp\<close>

text \<open>The static array: \<^verbatim>\<open>*(*(array + i) + j)\<close> of an array with rows of \<open>h\<close> elements, stored row by row.\<close>

definition static_element :: "nat \<Rightarrow> int list \<Rightarrow> nat \<Rightarrow> nat \<Rightarrow> int" where
  "static_element h xs i j = xs ! (i * h + j)"

definition print_static :: "nat \<Rightarrow> nat \<Rightarrow> int list \<Rightarrow> int list" where
  "print_static w h xs = concat (map (\<lambda>i. map (static_element h xs i) [0..<h]) [0..<w])"

definition new_rows :: "nat \<Rightarrow> nat \<Rightarrow> nat \<Rightarrow> val heap \<Rightarrow> val heap option" where
  "new_rows t w h =
     for_loop (\<lambda>i m. let (r, m1) = new_block h m in store t i (Addr r) m1) [0..<w]"

definition row :: "nat \<Rightarrow> nat \<Rightarrow> val heap \<Rightarrow> nat option" where
  "row t i m = (case load t i m of Some (Addr r) \<Rightarrow> Some r | _ \<Rightarrow> None)"

definition fill_row :: "nat \<Rightarrow> nat \<Rightarrow> nat \<Rightarrow> val heap \<Rightarrow> val heap option" where
  "fill_row t h i m =
     for_loop (\<lambda>j m. Option.bind (row t i m) (\<lambda>r. store r j (Num (int (i + j))) m)) [0..<h] m"

definition fill_rows :: "nat \<Rightarrow> nat \<Rightarrow> nat \<Rightarrow> val heap \<Rightarrow> val heap option" where
  "fill_rows t w h = for_loop (fill_row t h) [0..<w]"

fun print_row :: "nat \<Rightarrow> val heap \<Rightarrow> nat \<Rightarrow> nat list \<Rightarrow> int list option" where
  "print_row t m i [] = Some []"
| "print_row t m i (j # js) =
     do { r \<leftarrow> row t i m; x \<leftarrow> load_int (r, j) m; xs \<leftarrow> print_row t m i js; Some (x # xs) }"

fun print_rows :: "nat \<Rightarrow> nat \<Rightarrow> val heap \<Rightarrow> nat list \<Rightarrow> int list option" where
  "print_rows t h m [] = Some []"
| "print_rows t h m (i # is) =
     do { xs \<leftarrow> print_row t m i [0..<h]; ys \<leftarrow> print_rows t h m is; Some (xs @ ys) }"

definition delete_rows :: "nat \<Rightarrow> nat \<Rightarrow> val heap \<Rightarrow> val heap option" where
  "delete_rows t w = for_loop (\<lambda>i m. Option.bind (row t i m) (\<lambda>r. free r m)) [0..<w]"

definition array2 :: "nat \<Rightarrow> nat \<Rightarrow> val heap \<Rightarrow> (int list \<times> val heap) option" where
  "array2 w h m0 =
     (let (t, m1) = new_block w m0 in
      do { m2 \<leftarrow> new_rows t w h m1;
           m3 \<leftarrow> fill_rows t w h m2;
           out \<leftarrow> print_rows t h m3 [0..<w];
           m4 \<leftarrow> delete_rows t w m3;
           m5 \<leftarrow> free t m4;
           Some (out, m5) })"

definition array_2d_main :: "val heap \<Rightarrow> (int list \<times> int list \<times> val heap) option" where
  "array_2d_main m =
     do { (dynamic, m1) \<leftarrow> array2 2 3 m;
          Some (print_static 2 3 [1, 2, 3, 4, 5, 6], dynamic, m1) }"

section \<open>The table of rows\<close>

text \<open>
  What the memory holds besides the store \<open>m0\<close> the program started with: the block \<open>t\<close> with the
  addresses of the rows \<open>rs\<close> that were made so far, and those of the rows, with their contents, that are
  not deleted yet (from the \<open>k\<close>-th on).
\<close>

definition table ::
  "val heap \<Rightarrow> nat \<Rightarrow> nat \<Rightarrow> nat \<Rightarrow> nat list \<Rightarrow> val option list list \<Rightarrow> val heap \<Rightarrow> bool" where
  "table m0 t w k rs rows m \<longleftrightarrow>
     heap_ok m \<and> distinct (t # rs) \<and> (\<forall>b \<in> set (t # rs). blocks m0 b = None) \<and>
     length rows = length rs \<and> length rs \<le> w \<and>
     blocks m t = Some (map (Some \<circ> Addr) rs @ replicate (w - length rs) None) \<and>
     (\<forall>i < length rs. blocks m (rs ! i) = (if i < k then None else Some (rows ! i))) \<and>
     (\<forall>b. b \<notin> set (t # rs) \<longrightarrow> blocks m b = blocks m0 b)"

lemma table_start:
  assumes "heap_ok m0" and "new_block w m0 = (t, m1)"
  shows "table m0 t w 0 [] [] m1"
  using mem.new_ok [OF assms] by (simp add: table_def)

lemma table_new_row:
  assumes "table m0 t w 0 rs rows m" and "length rs < w" and "new_block h m = (r, m1)"
  shows "\<exists>m2. store t (length rs) (Addr r) m1 = Some m2 \<and>
    table m0 t w 0 (rs @ [r]) (rows @ [replicate h None]) m2"
proof -
  have ok: "heap_ok m" using assms(1) by (simp add: table_def)
  note new = mem.new_ok [OF ok assms(3)]
  have other: "r \<noteq> t" "r \<notin> set rs"
    using new assms(1) by (auto simp: table_def in_set_conv_nth)
  moreover have "blocks m0 r = None" using new assms(1) other by (simp add: table_def)
  ultimately have fresh: "r \<noteq> t" "r \<notin> set rs" "blocks m0 r = None" by blast+
  let ?vs = "map (Some \<circ> Addr) rs @ replicate (w - length rs) None"
  have "blocks m1 t = Some ?vs" using new fresh assms(1) by (simp add: table_def)
  then obtain m2 where m2: "store t (length rs) (Addr r) m1 = Some m2" "heap_ok m2"
      "blocks m2 = (blocks m1)(t \<mapsto> ?vs[length rs := Some (Addr r)])"
    using mem.store_ok [of m1 t ?vs "length rs" "Addr r"] new assms(2) by auto
  have "replicate (w - length rs) None = None # replicate (w - Suc (length rs)) (None :: val option)"
    using assms(2) by (metis Suc_diff_Suc replicate_Suc)
  then have upd: "?vs[length rs := Some (Addr r)] =
      map (Some \<circ> Addr) (rs @ [r]) @ replicate (w - Suc (length rs)) None"
    by (simp add: list_update_append)
  have "table m0 t w 0 (rs @ [r]) (rows @ [replicate h None]) m2"
    unfolding table_def
  proof (intro conjI allI impI)
    fix i assume "i < length (rs @ [r])"
    then show "blocks m2 ((rs @ [r]) ! i) =
        (if i < 0 then None else Some ((rows @ [replicate h None]) ! i))"
      using assms(1) fresh new
      by (auto simp: table_def m2(3) nth_append less_Suc_eq)
  qed (use assms fresh m2 new upd in \<open>auto simp: table_def\<close>)
  with m2(1) show ?thesis by blast
qed

lemma table_row:
  assumes "table m0 t w k rs rows m" and "i < length rs"
  shows "row t i m = Some (rs ! i)"
  using assms by (simp add: table_def row_def load_def nth_append)

lemma table_load:
  assumes "table m0 t w k rs rows m" and "k \<le> i" and "i < length rs" and "j < length (rows ! i)"
  shows "load (rs ! i) j m = rows ! i ! j"
  using assms by (simp add: table_def load_def)

lemma table_store:
  assumes "table m0 t w 0 rs rows m" and "i < length rs" and "j < length (rows ! i)"
  shows "\<exists>m'. store (rs ! i) j v m = Some m' \<and>
    table m0 t w 0 rs (rows[i := (rows ! i)[j := Some v]]) m'"
proof -
  have block: "blocks m (rs ! i) = Some (rows ! i)" and ok: "heap_ok m"
    using assms by (simp_all add: table_def)
  obtain m' where m': "store (rs ! i) j v m = Some m'" "heap_ok m'"
      "blocks m' = (blocks m)(rs ! i \<mapsto> (rows ! i)[j := Some v])"
    using mem.store_ok [OF ok block assms(3), of v] by blast
  have "rs ! i \<noteq> t" "rs ! i \<in> set rs" using assms by (auto simp: table_def)
  then have "table m0 t w 0 rs (rows[i := (rows ! i)[j := Some v]]) m'"
    using assms m' by (auto simp: table_def nth_eq_iff_index_eq nth_list_update)
  with m'(1) show ?thesis by blast
qed

lemma table_free:
  assumes "table m0 t w k rs rows m" and "k < length rs"
  shows "\<exists>m'. free (rs ! k) m = Some m' \<and> table m0 t w (Suc k) rs rows m'"
proof -
  have block: "blocks m (rs ! k) = Some (rows ! k)" and ok: "heap_ok m"
    using assms by (simp_all add: table_def)
  obtain m' where m': "free (rs ! k) m = Some m'" "heap_ok m'"
      "blocks m' = (blocks m)(rs ! k := None)"
    using mem.free_ok [OF ok block] by blast
  have "rs ! k \<noteq> t" "rs ! k \<in> set rs" using assms by (auto simp: table_def)
  then have "table m0 t w (Suc k) rs rows m'"
    using assms m' by (auto simp: table_def nth_eq_iff_index_eq less_Suc_eq)
  with m'(1) show ?thesis by blast
qed

lemma table_end:
  assumes "table m0 t w (length rs) rs rows m"
  shows "\<exists>m'. free t m = Some m' \<and> blocks m' = blocks m0 \<and> heap_ok m'"
proof -
  have ok: "heap_ok m" and block: "blocks m t = Some (map (Some \<circ> Addr) rs @ replicate (w - length rs) None)"
    using assms by (simp_all add: table_def)
  obtain m' where m': "free t m = Some m'" "heap_ok m'" "blocks m' = (blocks m)(t := None)"
    using mem.free_ok [OF ok block] by blast
  have "blocks m' b = blocks m0 b" for b
  proof (cases "b \<in> set rs")
    case True
    then show ?thesis using assms m'(3) by (auto simp: table_def in_set_conv_nth)
  next
    case False
    then show ?thesis using assms m'(3) by (auto simp: table_def)
  qed
  with m' show ?thesis by blast
qed

subsection \<open>The loops of array\_2d.cpp\<close>

lemma new_rows_table:
  assumes "table m0 t w 0 [] [] m"
  shows "\<exists>m' rs. new_rows t w h m = Some m' \<and> length rs = w \<and>
    table m0 t w 0 rs (replicate w (replicate h None)) m'"
proof -
  let ?P = "\<lambda>i m. \<exists>rs. length rs = i \<and> table m0 t w 0 rs (replicate i (replicate h None)) m"
  have "\<exists>m'. for_loop (\<lambda>i m. let (r, m1) = new_block h m in store t i (Addr r) m1) [0..<w] m = Some m'
      \<and> ?P w m'"
  proof (rule for_loop_inv [where P = ?P])
    show "?P 0 m" using assms by simp
    fix i m assume "i < w" and "?P i m"
    then obtain rs where rs: "length rs = i" "table m0 t w 0 rs (replicate i (replicate h None)) m"
      by blast
    obtain r m1 where new: "new_block h m = (r, m1)" by (cases "new_block h m")
    from table_new_row [OF rs(2) _ new] rs(1) \<open>i < w\<close>
    show "\<exists>m'. (let (r, m1) = new_block h m in store t i (Addr r) m1) = Some m' \<and> ?P (Suc i) m'"
      by (auto simp: new replicate_append_same intro!: exI [of _ "rs @ [r]"])
  qed
  then show ?thesis by (auto simp: new_rows_def)
qed

definition full_row :: "nat \<Rightarrow> nat \<Rightarrow> val option list" where
  "full_row h i = map (\<lambda>j. Some (Num (int (i + j)))) [0..<h]"

lemma length_full_row [simp]: "length (full_row h i) = h"
  by (simp add: full_row_def)

lemma fill_row_table:
  assumes "table m0 t w 0 rs rows m" and "i < length rs" and "rows ! i = replicate h None"
  shows "\<exists>m'. fill_row t h i m = Some m' \<and> table m0 t w 0 rs (rows[i := full_row h i]) m'"
proof -
  let ?part = "\<lambda>j. full_row j i @ replicate (h - j) None"
  let ?P = "\<lambda>j. table m0 t w 0 rs (rows[i := ?part j])"
  have len: "length rows = length rs" using assms(1) by (simp add: table_def)
  have "\<exists>m'. for_loop (\<lambda>j m. Option.bind (row t i m) (\<lambda>r. store r j (Num (int (i + j))) m))
      [0..<h] m = Some m' \<and> ?P h m'"
  proof (rule for_loop_inv [where P = ?P])
    show "?P 0 m" using assms(1,3) by (simp add: full_row_def list_update_id [of rows i, unfolded assms(3)])
    fix j m assume j: "j < h" and P: "?P j m"
    have at: "rows[i := ?part j] ! i = ?part j" using assms(2) len by simp
    have "row t i m = Some (rs ! i)" using table_row [OF P assms(2)] .
    moreover obtain m' where "store (rs ! i) j (Num (int (i + j))) m = Some m'"
        "table m0 t w 0 rs (rows[i := (?part j)[j := Some (Num (int (i + j)))]]) m'"
      using table_store [OF P assms(2), of j "Num (int (i + j))"] j at by auto
    moreover have "(?part j)[j := Some (Num (int (i + j)))] = ?part (Suc j)"
    proof -
      have "replicate (h - j) None = None # replicate (h - Suc j) (None :: val option)"
        using j by (metis Suc_diff_Suc replicate_Suc)
      then show ?thesis by (simp add: list_update_append full_row_def)
    qed
    ultimately show "\<exists>m'. Option.bind (row t i m) (\<lambda>r. store r j (Num (int (i + j))) m) = Some m' \<and>
        ?P (Suc j) m'" by auto
  qed
  then show ?thesis by (auto simp: fill_row_def)
qed

lemma fill_rows_table:
  assumes "table m0 t w 0 rs (replicate w (replicate h None)) m" and "length rs = w"
  shows "\<exists>m'. fill_rows t w h m = Some m' \<and> table m0 t w 0 rs (map (full_row h) [0..<w]) m'"
proof -
  let ?rows = "\<lambda>i. map (full_row h) [0..<i] @ replicate (w - i) (replicate h None)"
  have "\<exists>m'. for_loop (fill_row t h) [0..<w] m = Some m' \<and> table m0 t w 0 rs (?rows w) m'"
  proof (rule for_loop_inv [where P = "\<lambda>i. table m0 t w 0 rs (?rows i)"])
    show "table m0 t w 0 rs (?rows 0) m" using assms(1) by simp
    fix i m assume i: "i < w" and P: "table m0 t w 0 rs (?rows i) m"
    have split: "replicate (w - i) (replicate h None) =
        replicate h None # replicate (w - Suc i) (replicate h (None :: val option))"
      using i by (metis Suc_diff_Suc replicate_Suc)
    then have "(?rows i)[i := full_row h i] = ?rows (Suc i)" by (simp add: list_update_append)
    moreover have "?rows i ! i = replicate h None" by (simp add: nth_append split)
    ultimately show "\<exists>m'. fill_row t h i m = Some m' \<and> table m0 t w 0 rs (?rows (Suc i)) m'"
      using fill_row_table [OF P, of i h] i assms(2) by auto
  qed
  then show ?thesis by (simp add: fill_rows_def)
qed

lemma print_row_table:
  assumes "table m0 t w 0 rs (map (full_row h) [0..<w]) m" and "i < w" and "length rs = w"
    and "\<forall>j \<in> set js. j < h"
  shows "print_row t m i js = Some (map (\<lambda>j. int (i + j)) js)"
  using assms(4)
proof (induction js)
  case (Cons j js)
  have "load_int (rs ! i, j) m = Some (int (i + j))"
    using table_load [OF assms(1) _ _, of i j] assms(2,3) Cons.prems
    by (simp add: load_int_def full_row_def)
  then show ?case
    using table_row [OF assms(1), of i] assms(2,3) Cons by simp
qed simp

lemma print_rows_table:
  assumes "table m0 t w 0 rs (map (full_row h) [0..<w]) m" and "length rs = w"
    and "\<forall>i \<in> set is. i < w"
  shows "print_rows t h m is = Some (concat (map (\<lambda>i. map (\<lambda>j. int (i + j)) [0..<h]) is))"
  using assms(3)
proof (induction "is")
  case (Cons i "is")
  then show ?case using print_row_table [OF assms(1) _ assms(2), of i "[0..<h]"] by simp
qed simp

lemma delete_rows_table:
  assumes "table m0 t w 0 rs rows m" and "length rs = w"
  shows "\<exists>m'. delete_rows t w m = Some m' \<and> table m0 t w w rs rows m'"
  unfolding delete_rows_def
proof (rule for_loop_inv [where P = "\<lambda>k. table m0 t w k rs rows"])
  show "table m0 t w 0 rs rows m" by (rule assms(1))
  fix k m assume k: "k < w" and P: "table m0 t w k rs rows m"
  show "\<exists>m'. Option.bind (row t k m) (\<lambda>r. free r m) = Some m' \<and> table m0 t w (Suc k) rs rows m'"
    using table_row [OF P] table_free [OF P] k assms(2) by simp
qed

section \<open>Properties\<close>

text \<open>
  C26. For every width and height the dynamic table of \<open>array_2d.cpp\<close> is built, filled and printed
  row by row with the sums of the indices, without an access outside a block; and every block
  that was allocated is deleted exactly once: the memory is what it was before.
\<close>

theorem array2_correct:
  assumes "heap_ok m0"
  shows "\<exists>m'. array2 w h m0 =
      Some (concat (map (\<lambda>i. map (\<lambda>j. int (i + j)) [0..<h]) [0..<w]), m') \<and>
    blocks m' = blocks m0 \<and> heap_ok m'"
proof -
  obtain t m1 where new: "new_block w m0 = (t, m1)" by (cases "new_block w m0")
  obtain m2 rs where m2: "new_rows t w h m1 = Some m2" "length rs = w"
      "table m0 t w 0 rs (replicate w (replicate h None)) m2"
    using new_rows_table [OF table_start [OF assms new]] by blast
  obtain m3 where m3: "fill_rows t w h m2 = Some m3" "table m0 t w 0 rs (map (full_row h) [0..<w]) m3"
    using fill_rows_table [OF m2(3,2)] by blast
  obtain m4 where m4: "delete_rows t w m3 = Some m4" "table m0 t w w rs (map (full_row h) [0..<w]) m4"
    using delete_rows_table [OF m3(2) m2(2)] by blast
  obtain m5 where m5: "free t m4 = Some m5" "blocks m5 = blocks m0 \<and> heap_ok m5"
    using table_end [of m0 t w rs "map (full_row h) [0..<w]" m4] m4(2) m2(2) by auto
  have "print_rows t h m3 [0..<w] = Some (concat (map (\<lambda>i. map (\<lambda>j. int (i + j)) [0..<h]) [0..<w]))"
    using print_rows_table [OF m3(2) m2(2), of "[0..<w]"] by simp
  then show ?thesis using m2(1) m3(1) m4(1) m5 by (simp add: array2_def new)
qed

theorem array2_correct_witness:
  "\<exists>m'. array2 2 3 empty_heap =
      Some (concat (map (\<lambda>i. map (\<lambda>j. int (i + j)) [0..<3]) [0..<2]), m') \<and>
    blocks m' = blocks (empty_heap :: val heap) \<and> heap_ok m'"
  by (rule array2_correct) (simp add: heap_ok_def empty_heap_def)

lemma heap_fresh: "heap_ok h \<Longrightarrow> blocks h (next_block h + k) = None"
  by (auto simp: heap_ok_def)

text \<open>
  \<open>pointers.cpp\<close> runs without undefined behaviour in every memory: the three reports show the
  assignment of the pointer and of the value, the deletion of the null pointer does nothing, the
  first \<^verbatim>\<open>new int\<close> is released and so are the two variables; but the block of the last
  \<^verbatim>\<open>new int(3)\<close> is never released.
\<close>

theorem pointers_leak:
  assumes "heap_ok h0"
  shows "\<exists>h'. local_pointers h0 = Some
      (let b = next_block h0 in
       [[(''v1'', Num 1), (''v2'', Num 2), (''*p1'', Addr b), (''*p2'', Addr (b + 1)),
         (''p1'', Num 1), (''p2'', Num 2)],
        [(''v1'', Num 1), (''v2'', Num 2), (''*p1'', Addr b), (''*p2'', Addr b),
         (''p1'', Num 1), (''p2'', Num 1)],
        [(''v1'', Num 1), (''v2'', Num 2), (''*p1'', Addr (b + 3)), (''*p2'', Addr b),
         (''p1'', Num 3), (''p2'', Num 1)]], h') \<and>
    blocks h' = (blocks h0)(next_block h0 + 3 \<mapsto> [Some (Num 3)])"
  using heap_fresh [OF assms, of 0] heap_fresh [OF assms, of 1] heap_fresh [OF assms, of 2]
  by (simp add: local_pointers_def step_defs load_def print_vars_def deref_def assign_def delete_def
      numeral_3_eq_3 fun_eq_iff Let_def)

theorem pointers_leak_witness:
  "\<exists>h'. local_pointers empty_heap = Some
      (let b = next_block (empty_heap :: val heap) in
       [[(''v1'', Num 1), (''v2'', Num 2), (''*p1'', Addr b), (''*p2'', Addr (b + 1)),
         (''p1'', Num 1), (''p2'', Num 2)],
        [(''v1'', Num 1), (''v2'', Num 2), (''*p1'', Addr b), (''*p2'', Addr b),
         (''p1'', Num 1), (''p2'', Num 1)],
        [(''v1'', Num 1), (''v2'', Num 2), (''*p1'', Addr (b + 3)), (''*p2'', Addr b),
         (''p1'', Num 3), (''p2'', Num 1)]], h') \<and>
    blocks h' = (blocks empty_heap)(next_block (empty_heap :: val heap) + 3 \<mapsto> [Some (Num 3)])"
  by (rule pointers_leak) (simp add: heap_ok_def empty_heap_def)

text \<open>
  \<open>arrays.cpp\<close>: the address printed as that of the second element is the one of the element
  with the index \<^verbatim>\<open>sizeof(int)\<close>; on an array with values the chained comparison says whether the
  third value is the truth value of the first comparison, and the conjunction whether the
  two elements are equal; on the array of the program, whose cells were never
  written, the comparison is undefined.
\<close>

theorem arrays_comparison:
  assumes "blocks h a = Some (map (Some \<circ> Num) vs)" and "length vs = 10" and "n < 10"
  shows "first_addresses a n ! 2 = (a, n) \<and>
    compare_elements n a h =
      Some (if vs ! 1 = vs ! n then vs ! n = 1 else vs ! n = 0, vs ! 1 = vs ! n) \<and>
    arrays_main n h = None"
proof -
  have "load_int (a, k) h = Some (vs ! k)" if "k < 10" for k
    using that assms(1,2) by (simp add: load_int_def load_def)
  then have "compare_elements n a h =
      Some (if vs ! 1 = vs ! n then vs ! n = 1 else vs ! n = 0, vs ! 1 = vs ! n)"
    using assms(3) by (auto simp: compare_elements_def ptr_add_def chained_equal_def both_equal_def)
  moreover have "arrays_main n h = None"
    by (simp add: arrays_main_def new_block_def compare_elements_def load_int_def load_def)
  ultimately show ?thesis by (simp add: first_addresses_def ptr_add_def)
qed

theorem arrays_comparison_witness:
  "let h = \<lparr>blocks = (\<lambda>b. Some (map (Some \<circ> Num) (replicate 10 5))), next_block = 1\<rparr> in
   first_addresses 0 4 ! 2 = (0, 4) \<and> compare_elements 4 0 h = Some (False, True) \<and>
   arrays_main 4 h = None"
  using arrays_comparison [of "\<lparr>blocks = (\<lambda>b. Some (map (Some \<circ> Num) (replicate 10 5))), next_block = 1\<rparr>"
      0 "replicate 10 5" 4]
  by simp

end
