(* ===== verification/Aes_Tools.thy ===== *)
theory Aes_Tools
  imports Program_Run Byte_Codec
begin

section \<open>The AES programs (cpp/crypto/aes/\<open>*\<close>.cpp)\<close>

text \<open>
  Each program makes a key (random, or from a text that is cut or padded), encrypts a text, and
  decrypts it again, each half in a \<^verbatim>\<open>try\<close> of its own. Crypto++ is a parameter: the record \<open>aes_lib\<close>
  holds what the random generator delivers and what the two filters give for a key, an
  initialisation vector and a text, or the exception (\<open>Inl\<close>).
\<close>

record aes_lib =
  random_block :: "nat \<Rightarrow> nat \<Rightarrow> u8 list"
  encryption :: "u8 list \<Rightarrow> u8 list option \<Rightarrow> u8 list \<Rightarrow> string + u8 list"
  decryption :: "u8 list \<Rightarrow> u8 list option \<Rightarrow> u8 list \<Rightarrow> string + u8 list"
  hex_encoder :: "u8 list \<Rightarrow> string"

datatype line =
    Plain_key nat string
  | Key_line nat string
  | Iv_line nat string
  | Plain_line "u8 list"
  | Cipher_line string
  | Recovered "u8 list"
  | Exception_line string

definition bytes_of :: "string \<Rightarrow> u8 list" where
  "bytes_of s = map (\<lambda>c. word_of_nat (of_char c)) s"

definition key_length :: nat where
  "key_length = 16"

definition block_size :: nat where
  "block_size = 16"

text \<open>The key from a text: cut if it is too long, padded with asterisks if it is too short.\<close>

definition fit_key :: "string \<Rightarrow> string" where
  "fit_key key_plain =
     (if key_length < length key_plain then take key_length key_plain
      else if key_length > length key_plain
        then key_plain @ replicate (key_length - length key_plain) CHR ''*''
      else key_plain)"

text \<open>\<^verbatim>\<open>memcpy\<close> of \<^verbatim>\<open>DEFAULT_KEYLENGTH\<close> bytes from the string and the NUL after it.\<close>

definition key_bytes :: "string \<Rightarrow> u8 list" where
  "key_bytes key_plain = take key_length (bytes_of (fit_key key_plain @ [NUL]))"

text \<open>A half of the program: an exception is printed and the process exits with 1.\<close>

definition try_filter :: "string + u8 list \<Rightarrow> (line, u8 list) run" where
  "try_filter r = (case r of Inl e \<Rightarrow> ([Exception_line e], Exits 1) | Inr bs \<Rightarrow> ([], Returns bs))"

definition crypt_and_recover ::
  "aes_lib \<Rightarrow> u8 list \<Rightarrow> u8 list option \<Rightarrow> u8 list \<Rightarrow> (line, int) run" where
  "crypt_and_recover L key iv plain =
     then_run (try_filter (encryption L key iv plain)) (\<lambda>cipher.
     then_run (print_lines [Cipher_line (hex_encoder L cipher)]) (\<lambda>_.
     then_run (try_filter (decryption L key iv cipher)) (\<lambda>recovered.
     then_run (print_lines [Recovered recovered]) (\<lambda>_. ([], Returns 0)))))"

text \<open>The generator is asked for the key first (call 0) and for the vector next (call 1).\<close>

definition cbc_with_key :: "aes_lib \<Rightarrow> u8 list \<Rightarrow> nat \<Rightarrow> u8 list \<Rightarrow> (line, int) run" where
  "cbc_with_key L key calls plain =
     (let iv = random_block L calls block_size in
      then_run (print_lines [Key_line key_length (hex_encoder L key),
                             Iv_line block_size (hex_encoder L iv), Plain_line plain])
        (\<lambda>_. crypt_and_recover L key (Some iv) plain))"

definition cbc_keygen_main :: "aes_lib \<Rightarrow> u8 list \<Rightarrow> (line, int) run" where
  "cbc_keygen_main L plain = cbc_with_key L (random_block L 0 key_length) 1 plain"

definition cbc_keyplain_main :: "aes_lib \<Rightarrow> string \<Rightarrow> u8 list \<Rightarrow> (line, int) run" where
  "cbc_keyplain_main L key_plain plain =
     then_run (print_lines [Plain_key (length key_plain) key_plain])
       (\<lambda>_. cbc_with_key L (key_bytes key_plain) 0 plain)"

definition ecb_main :: "aes_lib \<Rightarrow> u8 list \<Rightarrow> (line, int) run" where
  "ecb_main L plain =
     then_run (print_lines [Plain_line plain])
       (\<lambda>_. crypt_and_recover L (random_block L 0 key_length) None plain)"

text \<open>What Crypto++ documents: decryption with the same key and vector undoes encryption.\<close>

definition inverse_filters :: "aes_lib \<Rightarrow> bool" where
  "inverse_filters L \<longleftrightarrow>
     (\<forall>key iv p c. length key = 16 \<and> encryption L key iv p = Inr c \<longrightarrow> decryption L key iv c = Inr p)"

subsection \<open>Laws\<close>

lemma length_fit_key [simp]: "length (fit_key s) = 16"
  by (simp add: fit_key_def key_length_def)

lemma key_bytes_eq: "key_bytes s = bytes_of (fit_key s)"
  by (simp add: key_bytes_def bytes_of_def key_length_def)

lemma char_byte_inject: "(word_of_nat (of_char c) :: u8) = word_of_nat (of_char d) \<longleftrightarrow> c = d"
proof -
  have "unat (word_of_nat (of_char e) :: u8) = of_char e" for e
    using nat_of_char_less_256 [of e] by (simp add: unsigned_of_nat take_bit_nat_eq_self)
  then show ?thesis by (metis of_char_eq_iff)
qed

lemma bytes_of_inject [simp]: "bytes_of s = bytes_of t \<longleftrightarrow> s = t"
proof -
  have "inj (\<lambda>c. word_of_nat (of_char c) :: u8)" by (rule injI) (simp add: char_byte_inject)
  then show ?thesis by (simp add: bytes_of_def inj_map_eq_map)
qed

lemma length_bytes_of [simp]: "length (bytes_of s) = length s"
  by (simp add: bytes_of_def)

lemma fit_key_eq: "fit_key s = take 16 (s @ replicate 16 CHR ''*'')"
  by (auto simp: fit_key_def key_length_def min_def)

lemma length_key_bytes [simp]: "length (key_bytes s) = 16"
  by (simp add: key_bytes_eq)

lemma crypt_and_recover_eq:
  assumes "inverse_filters L" and "length key = 16"
  shows "crypt_and_recover L key iv plain =
    (case encryption L key iv plain of
       Inl e \<Rightarrow> ([Exception_line e], Exits 1)
     | Inr c \<Rightarrow> ([Cipher_line (hex_encoder L c), Recovered plain], Returns 0))"
proof (cases "encryption L key iv plain")
  case (Inl e)
  then show ?thesis by (simp add: crypt_and_recover_def try_filter_def then_run_def)
next
  case (Inr c)
  then have "decryption L key iv c = Inr plain"
    using assms by (auto simp: inverse_filters_def)
  then show ?thesis
    by (simp add: crypt_and_recover_def try_filter_def then_run_def print_lines_def Inr)
qed

section \<open>Properties\<close>

text \<open>
  The key made from a text always has 16 bytes, and two texts make the same key exactly if
  they agree in the first 16 characters after both are padded with asterisks: a short text and
  the same text with asterisks added, or two long texts with the same beginning, are one key.
\<close>

theorem key_bytes_collisions:
  "length (key_bytes s) = 16 \<and>
   (key_bytes s = key_bytes t) =
     (take 16 (s @ replicate 16 CHR ''*'') = take 16 (t @ replicate 16 CHR ''*'')) \<and>
   key_bytes (take 15 s @ ''*'') = key_bytes (take 15 s)"
proof -
  have "(take 15 s @ ''*'') @ replicate 16 CHR ''*'' = take 15 s @ replicate 17 CHR ''*''"
    using replicate_Suc [of 16 "CHR ''*''"] by (simp del: replicate_Suc)
  then have "fit_key (take 15 s @ ''*'') = fit_key (take 15 s)" by (simp add: fit_key_eq)
  then show ?thesis by (simp add: key_bytes_eq) (simp add: fit_key_eq)
qed

text \<open>
  With a library whose decryption undoes encryption and whose generator fills its buffers,
  each of the three programs either prints the exception of the encryption and exits with 1, or
  prints the cipher text and recovers exactly the text it encrypted, and returns 0.
\<close>

theorem aes_programs_recover:
  assumes "inverse_filters L" and "\<forall>n k. length (random_block L n k) = k"
  shows "(let key = key_bytes kp; iv = Some (random_block L 0 16) in
      drop 4 (fst (cbc_keyplain_main L kp plain)) =
        (case encryption L key iv plain of Inl e \<Rightarrow> [Exception_line e]
         | Inr c \<Rightarrow> [Cipher_line (hex_encoder L c), Recovered plain]) \<and>
      snd (cbc_keyplain_main L kp plain) =
        (case encryption L key iv plain of Inl e \<Rightarrow> Exits 1 | Inr c \<Rightarrow> Returns 0)) \<and>
    (let key = random_block L 0 16; iv = Some (random_block L 1 16) in
      drop 3 (fst (cbc_keygen_main L plain)) =
        (case encryption L key iv plain of Inl e \<Rightarrow> [Exception_line e]
         | Inr c \<Rightarrow> [Cipher_line (hex_encoder L c), Recovered plain]) \<and>
      snd (cbc_keygen_main L plain) =
        (case encryption L key iv plain of Inl e \<Rightarrow> Exits 1 | Inr c \<Rightarrow> Returns 0)) \<and>
    (let key = random_block L 0 16 in
      drop 1 (fst (ecb_main L plain)) =
        (case encryption L key None plain of Inl e \<Rightarrow> [Exception_line e]
         | Inr c \<Rightarrow> [Cipher_line (hex_encoder L c), Recovered plain]) \<and>
      snd (ecb_main L plain) =
        (case encryption L key None plain of Inl e \<Rightarrow> Exits 1 | Inr c \<Rightarrow> Returns 0))"
  using assms(2)
  by (simp add: cbc_keyplain_main_def cbc_keygen_main_def ecb_main_def cbc_with_key_def
      crypt_and_recover_eq [OF assms(1)] key_length_def block_size_def then_run_def print_lines_def
      Let_def split: sum.splits)

definition sample_aes :: aes_lib where
  "sample_aes =
     \<lparr>random_block = (\<lambda>n k. replicate k (word_of_nat n)),
      encryption = (\<lambda>key iv p. if p = [] then Inl ''empty'' else Inr (map (\<lambda>b. b + hd key) p)),
      decryption = (\<lambda>key iv c. Inr (map (\<lambda>b. b - hd key) c)),
      hex_encoder = (\<lambda>bs. concat (map hex_byte bs))\<rparr>"

theorem aes_programs_recover_witness:
  "snd (cbc_keyplain_main sample_aes ''super secure'' [104, 105]) = Returns 0 \<and>
   snd (cbc_keygen_main sample_aes [104, 105]) = Returns 0 \<and>
   snd (ecb_main sample_aes []) = Exits 1"
proof -
  have "inverse_filters sample_aes" "\<forall>n k. length (random_block sample_aes n k) = k"
    by (simp_all add: inverse_filters_def sample_aes_def comp_def)
  note facts = aes_programs_recover [OF this, of "''super secure''" "[104, 105]"]
    aes_programs_recover [OF this, of "''super secure''" "[]"]
  have enc: "encryption sample_aes key iv [104, 105] = Inr (map (\<lambda>b. b + hd key) [104, 105])"
    and no_enc: "encryption sample_aes key iv [] = Inl ''empty''" for key iv
    by (simp_all add: sample_aes_def)
  show ?thesis using facts by (simp only: Let_def enc no_enc sum.case)
qed

end
