(* ===== verification/Split_String.thy ===== *)
theory Split_String
  imports Cpp_Std
begin

section \<open>Splitting a string on spaces (cpp/split\_string\_on\_spaces.cpp)\<close>

text \<open>
  \<^verbatim>\<open>while (ss >> buf)\<close> over a string stream. The extraction skips white space; if nothing is left it
  fails and leaves the string alone, otherwise it erases the string and reads up to the next
  white space. Only the output statement belongs to the loop: \<^verbatim>\<open>push_back\<close> runs once, after it.
\<close>

record istream =
  unread :: string
  at_eof :: bool
  failed_extract :: bool

definition get_word :: "istream \<Rightarrow> string \<Rightarrow> istream \<times> string" where
  "get_word ss buf =
     (if at_eof ss \<or> failed_extract ss then (ss\<lparr>failed_extract := True\<rparr>, buf)
      else let r = dropWhile is_space (unread ss) in
        if r = [] then (\<lparr>unread = [], at_eof = True, failed_extract = True\<rparr>, buf)
        else let w = takeWhile (\<lambda>c. \<not> is_space c) r; r1 = dropWhile (\<lambda>c. \<not> is_space c) r
             in (\<lparr>unread = r1, at_eof = (r1 = []), failed_extract = False\<rparr>, w))"

lemma get_word_shrinks:
  assumes "get_word ss buf = (ss1, w)" and "\<not> failed_extract ss1"
  shows "length (unread ss1) < length (unread ss)"
proof -
  let ?r = "dropWhile is_space (unread ss)"
  have r: "?r \<noteq> []" "unread ss1 = dropWhile (\<lambda>c. \<not> is_space c) ?r"
    using assms by (auto simp: get_word_def Let_def simp del: dropWhile_eq_Nil_conv split: if_splits)
  then have "\<not> is_space (hd ?r)" by (simp add: hd_dropWhile)
  with r have "length (unread ss1) < length ?r"
    by (cases ?r) (auto simp: le_imp_less_Suc length_dropWhile_le)
  also have "\<dots> \<le> length (unread ss)" by (rule length_dropWhile_le)
  finally show ?thesis .
qed

text \<open>The words that are printed and the string that is left in \<^verbatim>\<open>buf\<close>.\<close>

function word_loop :: "istream \<Rightarrow> string \<Rightarrow> string list \<times> string" where
  "word_loop ss buf =
     (case get_word ss buf of (ss1, buf1) \<Rightarrow>
        if failed_extract ss1 then ([], buf1)
        else case word_loop ss1 buf1 of (wds, last_buf) \<Rightarrow> (buf1 # wds, last_buf))"
  by pat_completeness auto
termination
proof (relation "measure (\<lambda>p. length (unread (fst p)))")
  fix ss buf ss1 buf1
  assume "(ss1, buf1) = get_word ss buf" and "\<not> failed_extract ss1"
  then have "get_word ss buf = (ss1, buf1)" by simp
  from get_word_shrinks [OF this \<open>\<not> failed_extract ss1\<close>]
  have "length (unread ss1) < length (unread ss)" .
  then show "((ss1, buf1), (ss, buf)) \<in> measure (\<lambda>p. length (unread (fst p)))"
    by (simp only: in_measure fst_conv)
qed simp

declare word_loop.simps [simp del]

definition open_stream :: "string \<Rightarrow> istream" where
  "open_stream s = \<lparr>unread = s, at_eof = False, failed_extract = False\<rparr>"

text \<open>\<^verbatim>\<open>main\<close> for any string: what is printed, and the vector \<^verbatim>\<open>tokens\<close>.\<close>

definition split_main :: "string \<Rightarrow> string \<times> string list" where
  "split_main str =
     (case word_loop (open_stream str) [] of (wds, buf) \<Rightarrow>
        (concat (map (\<lambda>w. w @ ''/'') wds) @ [LF], [buf]))"

subsection \<open>The words of a string\<close>

text \<open>The specification: cut at every white-space character and keep the pieces that are not empty.\<close>

fun cut :: "string \<Rightarrow> string list" where
  "cut [] = [[]]"
| "cut (c # s) = (if is_space c then [] # cut s else (c # hd (cut s)) # tl (cut s))"

definition words :: "string \<Rightarrow> string list" where
  "words s = filter (\<lambda>w. w \<noteq> []) (cut s)"

lemma cut_not_Nil [simp]: "cut s \<noteq> []"
  by (induction s) auto

lemma words_space: "is_space c \<Longrightarrow> words (c # s) = words s"
  by (simp add: words_def)

lemma words_dropWhile: "words (dropWhile is_space s) = words s"
  by (induction s) (simp_all add: words_space)

lemma cut_word:
  "cut s = takeWhile (\<lambda>c. \<not> is_space c) s #
     (case dropWhile (\<lambda>c. \<not> is_space c) s of [] \<Rightarrow> [] | c # t \<Rightarrow> cut t)"
  by (induction s) (auto split: list.splits)

lemma words_first:
  assumes "s \<noteq> []" and "\<not> is_space (hd s)"
  shows "words s = takeWhile (\<lambda>c. \<not> is_space c) s # words (dropWhile (\<lambda>c. \<not> is_space c) s)"
proof -
  let ?r = "dropWhile (\<lambda>c. \<not> is_space c) s"
  have "takeWhile (\<lambda>c. \<not> is_space c) s \<noteq> []" using assms by (cases s) auto
  moreover have "words ?r = filter (\<lambda>w. w \<noteq> []) (case ?r of [] \<Rightarrow> [] | c # t \<Rightarrow> cut t)"
  proof (cases ?r)
    case Nil
    show ?thesis unfolding Nil by (simp add: words_def)
  next
    case (Cons c t)
    then have "is_space c" using hd_dropWhile [of "\<lambda>c. \<not> is_space c" s] by simp
    then show ?thesis by (simp add: Cons words_def)
  qed
  ultimately show ?thesis by (simp add: words_def cut_word [of s])
qed

lemma words_parts: "w \<in> set (words s) \<Longrightarrow> w \<noteq> [] \<and> (\<forall>c \<in> set w. \<not> is_space c)"
proof -
  have "\<forall>w \<in> set (cut s). \<forall>c \<in> set w. \<not> is_space c"
  proof (induction s)
    case (Cons c s)
    then show ?case using list.set_sel(1) [of "cut s"] list.set_sel(2) [of "cut s"] by auto
  qed simp
  then show "w \<in> set (words s) \<Longrightarrow> w \<noteq> [] \<and> (\<forall>c \<in> set w. \<not> is_space c)"
    by (auto simp: words_def)
qed

lemma words_all_space: "words s = [] \<longleftrightarrow> dropWhile is_space s = []"
proof (cases "dropWhile is_space s")
  case Nil
  have "words (dropWhile is_space s) = []" unfolding Nil by (simp add: words_def)
  then show ?thesis using words_dropWhile [of s] Nil by simp
next
  case (Cons c t)
  then have "\<not> is_space c" using hd_dropWhile [of is_space s] by simp
  then show ?thesis using words_dropWhile [of s] words_first [of "dropWhile is_space s"]
    by (simp add: Cons)
qed

lemma word_loop_words:
  assumes "\<not> failed_extract ss" and "at_eof ss \<longrightarrow> unread ss = []"
  shows "word_loop ss buf = (words (unread ss), last (buf # words (unread ss)))"
  using assms
proof (induction ss buf rule: word_loop.induct)
  case (1 ss buf)
  let ?r = "dropWhile is_space (unread ss)"
  have words_r: "words ?r = words (unread ss)" by (rule words_dropWhile)
  show ?case
  proof (cases "?r = []")
    case True
    then have "snd (get_word ss buf) = buf" "failed_extract (fst (get_word ss buf))"
      by (simp_all add: get_word_def Let_def del: dropWhile_eq_Nil_conv)
    moreover have "words (unread ss) = []" using True words_all_space by blast
    ultimately show ?thesis by (subst word_loop.simps) (simp add: split_def)
  next
    case False
    then have "\<not> at_eof ss" using "1.prems" by auto
    let ?w = "takeWhile (\<lambda>c. \<not> is_space c) ?r"
    let ?ss = "\<lparr>unread = dropWhile (\<lambda>c. \<not> is_space c) ?r,
      at_eof = (dropWhile (\<lambda>c. \<not> is_space c) ?r = []), failed_extract = False\<rparr>"
    have ex: "get_word ss buf = (?ss, ?w)"
      using \<open>\<not> at_eof ss\<close> False "1.prems" by (simp add: get_word_def Let_def)
    have "words (unread ss) = ?w # words (unread ?ss)"
      using words_first [of ?r] False hd_dropWhile [of is_space "unread ss"] words_r by simp
    moreover have "word_loop ?ss ?w = (words (unread ?ss), last (?w # words (unread ?ss)))"
      using "1.IH" [OF ex [symmetric]] by simp
    ultimately show ?thesis by (subst word_loop.simps) (simp add: ex)
  qed
qed

section \<open>Properties\<close>

text \<open>
  C30. For every string the loop ends and prints the words of the string in order, each followed by a
  slash; but the vector of tokens gets one element only: the last word, or the empty string
  if there is none.
\<close>

theorem split_prints_words:
  "split_main str =
     (concat (map (\<lambda>w. w @ ''/'') (words str)) @ [LF],
      [if words str = [] then [] else last (words str)])"
  by (simp add: split_main_def word_loop_words open_stream_def)

end
