(* ===== verification/Library_Programs.thy ===== *)
theory Library_Programs
  imports Small_Programs Http_Servers
begin

section \<open>Programs that leave their work to a library\<close>

subsection \<open>A callback context (cpp/glfw\_cb\_context.cpp)\<close>

text \<open>
  GLFW keeps a pointer of the user's with each window, and calls the close callback when a window is asked to close,
  after it has set the close flag. The pointer is untyped: what the callback gets back is usable only if
  it is the address of a \<^verbatim>\<open>callback_context\<close>; any other value, or a null window, is undefined.
\<close>

datatype user_pointer = Null_pointer | Context | Other_object

record window =
  user_pointer :: user_pointer
  close_callback :: bool
  should_close :: bool
  out :: "string list"

definition get_context :: "window \<Rightarrow> user_pointer" where
  "get_context w = user_pointer w"

text \<open>\<^verbatim>\<open>cbc_ptr->foo.foo(); cbc_ptr->bar.bar();\<close>\<close>

definition on_close :: "window \<Rightarrow> window option" where
  "on_close w =
     (if get_context w = Context then Some (w\<lparr>out := out w @ [''foo'' @ [LF], ''bar'' @ [LF]]\<rparr>) else None)"

text \<open>One event of a poll: a request to close the window, or another one.\<close>

definition window_event :: "bool \<Rightarrow> window \<Rightarrow> window option" where
  "window_event close w =
     (if close then (if close_callback w then on_close (w\<lparr>should_close := True\<rparr>) else Some (w\<lparr>should_close := True\<rparr>))
      else Some w)"

fun poll_events :: "bool list \<Rightarrow> window \<Rightarrow> window option" where
  "poll_events [] w = Some w"
| "poll_events (e # es) w = Option.bind (window_event e w) (poll_events es)"

text \<open>The loop, over what each poll finds; it waits for ever if the polls never ask for the end.\<close>

fun window_loop :: "bool list list \<Rightarrow> window \<Rightarrow> (string, int) run" where
  "window_loop ps w =
     (if should_close w then (out w, Returns 0)
      else case ps of
          [] \<Rightarrow> (out w, Hangs)
        | p # qs \<Rightarrow> (case poll_events p w of None \<Rightarrow> (out w, Undefined_behaviour) | Some v \<Rightarrow> window_loop qs v))"

declare window_loop.simps [simp del]

text \<open>\<open>created\<close>: \<^verbatim>\<open>glfwCreateWindow\<close> gives a window; its null result is not tested.\<close>

definition glfw_main :: "bool \<Rightarrow> bool list list \<Rightarrow> (string, int) run" where
  "glfw_main created ps =
     (if \<not> created then ([], Undefined_behaviour)
      else window_loop ps \<lparr>user_pointer = Context, close_callback = True, should_close = False, out = []\<rparr>)"

subsection \<open>The program of the pistache proxy (cpp/opendht/dhtproxyserver/proxy\_pistache.cpp)\<close>

datatype pistache_call =
    Node_run nat
  | Node_bootstrap string string
  | Endpoint nat nat
  | Route string string
  | Set_handler
  | Serve
  | Shutdown
  | Node_join

text \<open>The constructor, \<^verbatim>\<open>run\<close>, and the destructor, which \<^verbatim>\<open>main\<close> reaches only if \<^verbatim>\<open>serve()\<close> returns.\<close>

definition pistache_constructor :: "pistache_call list" where
  "pistache_constructor =
     [Node_run 42662, Node_bootstrap ''bootstrap.jami.net'' ''4222'', Endpoint 9080 1,
      Route ''GET'' ''/:hash'', Route ''PUT'' ''/:hash'', Set_handler]"

definition pistache_destructor :: "pistache_call list" where
  "pistache_destructor = [Shutdown, Node_join]"

definition pistache_main :: "bool \<Rightarrow> (pistache_call, int) run" where
  "pistache_main serve_returns =
     then_run (print_lines (pistache_constructor @ [Serve])) (\<lambda>_.
       if serve_returns then (pistache_destructor, Returns 0) else ([], Hangs))"

subsection \<open>The hello servers (cpp/server/httpserver\_restinio.cpp, libhttpserver.cpp)\<close>

text \<open>The handler of each, for any request; the second one is registered for one path.\<close>

definition hello_restinio :: "'req \<Rightarrow> string" where
  "hello_restinio req = ''Hello, World!''"

definition render :: "'req \<Rightarrow> string" where
  "render req = ''hello world!''"

definition libhttpserver_answer :: "string \<Rightarrow> 'req \<Rightarrow> string option" where
  "libhttpserver_answer path req = (if path = ''/hello'' then Some (render req) else None)"

subsection \<open>The runner of the proxy benchmark (cpp/opendht/proxy\_runner.cpp)\<close>

datatype runner_call =
    Set_push_token string
  | Run_node nat
  | Proxy_server nat string
  | Sleep_seconds nat

text \<open>The calls up to and including \<open>n\<close> rounds of the endless loop.\<close>

definition runner_calls :: "nat \<Rightarrow> runner_call list" where
  "runner_calls n =
     [Set_push_token ''devicekey'', Run_node 8888, Proxy_server 8080 ''127.0.0.1:8090''] @
     replicate n (Sleep_seconds 10)"

subsection \<open>The graphs of enum\_map.cpp\<close>

text \<open>
  Boost builds the graph and its two subgraphs from the calls; \<open>graph\<close> gives the number of vertices and the neighbours of each.
\<close>

datatype graph_call =
    Create_graph nat
  | Create_subgraph
  | Add_vertex nat nat
  | Add_edge nat nat nat

definition enum_map_calls :: "graph_call list" where
  "enum_map_calls =
     [Create_graph 3, Create_subgraph, Create_subgraph, Add_vertex 0 1, Add_vertex 1 2, Add_vertex 2 2,
      Add_edge 0 1 0, Add_edge 1 2 0]"

definition enum_map_main :: "(graph_call list \<Rightarrow> nat \<Rightarrow> nat \<times> (nat \<Rightarrow> nat list)) \<Rightarrow> string" where
  "enum_map_main graph =
     ''Canada=0 USA=1 Mexico=2'' @ [LF] @
     concat (map (\<lambda>(name, k). name @ [LF] @ (case graph enum_map_calls k of (n, adj) \<Rightarrow> gprint n adj))
       [(''G0(world):'', 0), (''G1(continent):'', 1), (''G2(continent):'', 2)])"

subsection \<open>Laws of the window\<close>

text \<open>A typed window: its user pointer is what the callback takes it for.\<close>

definition window_typed :: "window \<Rightarrow> bool" where
  "window_typed w = (close_callback w \<and> user_pointer w = Context)"

lemma event_typed:
  assumes "window_typed w"
  shows "\<exists>v. window_event e w = Some v \<and> window_typed v \<and> should_close v = (should_close w \<or> e) \<and>
    out v = out w @ (if e then [''foo'' @ [LF], ''bar'' @ [LF]] else [])"
  using assms by (simp add: window_event_def on_close_def get_context_def window_typed_def)

definition closes :: "bool list \<Rightarrow> string list" where
  "closes es = concat (map (\<lambda>e. if e then [''foo'' @ [LF], ''bar'' @ [LF]] else []) es)"

lemma poll_typed:
  "window_typed w \<Longrightarrow> \<exists>v. poll_events es w = Some v \<and> window_typed v \<and>
     should_close v = (should_close w \<or> True \<in> set es) \<and> out v = out w @ closes es"
proof (induction es arbitrary: w)
  case (Cons e es)
  obtain v where "window_event e w = Some v" "window_typed v" "should_close v = (should_close w \<or> e)"
      "out v = out w @ (if e then [''foo'' @ [LF], ''bar'' @ [LF]] else [])"
    using event_typed [OF Cons.prems] by blast
  with Cons.IH [of v] show ?case by (auto simp: closes_def)
qed (simp add: closes_def)

text \<open>The first poll that asks for the end.\<close>

fun first_close :: "bool list list \<Rightarrow> bool list option" where
  "first_close [] = None"
| "first_close (p # ps) = (if True \<in> set p then Some p else first_close ps)"

lemma closes_none: "True \<notin> set p \<Longrightarrow> closes p = []"
  by (induction p) (auto simp: closes_def)

lemma window_loop_typed:
  "window_typed w \<Longrightarrow> \<not> should_close w \<Longrightarrow>
     window_loop ps w = (case first_close ps of None \<Rightarrow> (out w, Hangs) | Some p \<Rightarrow> (out w @ closes p, Returns 0))"
proof (induction ps arbitrary: w)
  case Nil
  then show ?case by (simp add: window_loop.simps)
next
  case (Cons p ps)
  obtain v where v: "poll_events p w = Some v" "window_typed v"
      "should_close v = (should_close w \<or> True \<in> set p)" "out v = out w @ closes p"
    using poll_typed [OF Cons.prems(1), of p] by blast
  show ?case
  proof (cases "True \<in> set p")
    case True
    then show ?thesis using v Cons.prems by (simp add: window_loop.simps)
  next
    case False
    then have "window_loop ps v = (case first_close ps of None \<Rightarrow> (out v, Hangs)
        | Some p \<Rightarrow> (out v @ closes p, Returns 0))"
      using Cons.IH [OF v(2)] v(3) Cons.prems(2) by simp
    then show ?thesis using False v Cons.prems closes_none [OF False]
      by (cases "first_close ps") (simp_all add: window_loop.simps [of "p # ps"])
  qed
qed

section \<open>Properties\<close>

text \<open>
  The untyped pointer of the window is used at its type: with a window, no run of the program is undefined. It ends
  after the first poll in which the window is asked to close, having printed both lines for each such request of that
  poll, and waits for ever if there is none; without a window it is undefined from the start.
\<close>

theorem glfw_context_typed:
  "glfw_main True ps =
     (case first_close ps of None \<Rightarrow> ([], Hangs) | Some p \<Rightarrow> (closes p, Returns 0)) \<and>
   snd (glfw_main False ps) = Undefined_behaviour"
  using window_loop_typed
    [of "\<lparr>user_pointer = Context, close_callback = True, should_close = False, out = []\<rparr>" ps]
  by (cases "first_close ps") (simp_all add: glfw_main_def window_typed_def)

end
