(* ===== verification/Dyad_Server.thy ===== *)
theory Dyad_Server
  imports Http_Servers Printf Program_Run
begin

section \<open>The program of the dyad server (cpp/server/httpserver\_dyad.cpp)\<close>

text \<open>
  Theory Http\_Servers models what the listeners write to the streams. Here is the whole program: every
  listener with the text it prints, the event loop and the destructor. \<^verbatim>\<open>None\<close> is undefined behaviour.
  An event has the fields that dyad fills in for it; the data of an accepted connection may be a null pointer.
\<close>

datatype net_event =
    Listening int
  | Connected_to "string option" nat
  | Line_read nat string
  | Data_read nat string
  | Failed string

record dyad_program =
  net :: dyad_server
  shown_text :: string
  closing :: "nat list"

definition dyad_print :: "string \<Rightarrow> arg list \<Rightarrow> dyad_program \<Rightarrow> dyad_program option" where
  "dyad_print format args p = map_option (\<lambda>t. p\<lparr>shown_text := shown_text p @ t\<rparr>) (printf format args)"

definition data_arg :: "string option \<Rightarrow> arg" where
  "data_arg data = (case data of None \<Rightarrow> Pointer_arg | Some s \<Rightarrow> Str_arg s)"

definition construct_server :: dyad_program where
  "construct_server = \<lparr>net = new_dyad_server, shown_text = [], closing = []\<rparr>"

definition accepts :: "string option \<Rightarrow> nat \<Rightarrow> dyad_program \<Rightarrow> dyad_program option" where
  "accepts data remote p =
     map_option (\<lambda>q. q\<lparr>net := on_accept_dyad remote (net q)\<rparr>)
       (dyad_print (LF # ''onAccept: %s'') [data_arg data] p)"

definition listens :: "int \<Rightarrow> dyad_program \<Rightarrow> dyad_program option" where
  "listens port p = dyad_print (''http://localhost:%d'' @ [LF]) [Int_arg port] p"

definition reads_data :: "nat \<Rightarrow> string \<Rightarrow> dyad_program \<Rightarrow> dyad_program option" where
  "reads_data st data p =
     map_option (\<lambda>q. q\<lparr>closing := closing q @ [st]\<rparr>) (dyad_print (LF # ''onData: %s'') [Str_arg data] p)"

definition answers_get :: "(nat \<Rightarrow> string) \<Rightarrow> nat \<Rightarrow> string \<Rightarrow> dyad_program \<Rightarrow> dyad_program option" where
  "answers_get address st path p =
     map_option
       (\<lambda>q. q\<lparr>net := write_to st [ok_header, ''dht::get()''] ((net q)\<lparr>shown := shown (net q) @ [(st, path)]\<rparr>)\<rparr>)
       (dyad_print (''%s %s'' @ [LF]) [Str_arg (address st), Str_arg path] p)"

text \<open>\<^verbatim>\<open>sizeof(event->data)\<close> is the size of a pointer, an unsigned long; \<^verbatim>\<open>event->stream\<close> is a pointer to a stream.\<close>

definition answers_put :: "nat \<Rightarrow> string \<Rightarrow> dyad_program \<Rightarrow> dyad_program option" where
  "answers_put st path p =
     map_option (\<lambda>q. q\<lparr>net := write_to st [ok_header] (net q)\<rparr>)
       (dyad_print (''here: %s %s %i'' @ [LF]) [Pointer_arg, Str_arg path, Ulong_arg 8] p)"

definition reads_line :: "(nat \<Rightarrow> string) \<Rightarrow> nat \<Rightarrow> string \<Rightarrow> dyad_program \<Rightarrow> dyad_program option" where
  "reads_line address st line p =
     Option.bind (dyad_print (LF # ''onLine: %s'') [Str_arg line] p) (\<lambda>q.
       case scan_path ''GET'' (c_str line) of
         Some path \<Rightarrow> answers_get address st path q
       | None \<Rightarrow>
           (case scan_path ''PUT'' (c_str line) of
              Some path \<Rightarrow> answers_put st path q
            | None \<Rightarrow> Some q))"

definition fails :: "string \<Rightarrow> dyad_program \<Rightarrow> dyad_program option" where
  "fails msg p = dyad_print (''server error: %s'' @ [LF]) [Str_arg msg] p"

text \<open>No stream has a listener for data: \<open>reads_data\<close> is never called.\<close>

fun dispatch :: "(nat \<Rightarrow> string) \<Rightarrow> dyad_program \<Rightarrow> net_event \<Rightarrow> dyad_program option" where
  "dispatch address p (Listening port) =
     (if On_listen \<in> server_listeners (net p) then listens port p else Some p)"
| "dispatch address p (Connected_to data remote) =
     (if On_accept \<in> server_listeners (net p) then accepts data remote p else Some p)"
| "dispatch address p (Line_read st line) =
     (if st \<in> set (line_listeners (net p)) then reads_line address st line p else Some p)"
| "dispatch address p (Data_read st data) = Some p"
| "dispatch address p (Failed msg) =
     (if On_error \<in> server_listeners (net p) then fails msg p else Some p)"

fun updates :: "(nat \<Rightarrow> string) \<Rightarrow> dyad_program \<Rightarrow> net_event list \<Rightarrow> dyad_program option" where
  "updates address p [] = Some p"
| "updates address p (e # es) = Option.bind (dispatch address p e) (\<lambda>q. updates address q es)"

text \<open>
  The destructor gives the stream to \<^verbatim>\<open>delete\<close>, which is defined for memory that comes from \<^verbatim>\<open>new\<close>. Where
  \<^verbatim>\<open>dyad_newStream\<close> gets its memory is a parameter (dyad is a C library and has its own allocation).
\<close>

datatype origin = From_new | From_library

definition destroy_server :: "origin \<Rightarrow> (string, unit) run" where
  "destroy_server stream =
     (case stream of From_new \<Rightarrow> ([], Returns ()) | From_library \<Rightarrow> ([], Undefined_behaviour))"

text \<open>
  \<^verbatim>\<open>main\<close>: the events of all calls of \<^verbatim>\<open>dyad_update\<close>; \<open>drained\<close> tells whether the number of streams gets to zero.
  Then \<^verbatim>\<open>main\<close> returns through the destructor of the server.
\<close>

definition dyad_main :: "origin \<Rightarrow> (nat \<Rightarrow> string) \<Rightarrow> net_event list \<Rightarrow> bool \<Rightarrow> (string, int) run" where
  "dyad_main stream address es drained =
     (case updates address construct_server es of
        None \<Rightarrow> ([], Undefined_behaviour)
      | Some p \<Rightarrow>
          then_run (print_lines [shown_text p]) (\<lambda>_.
            if drained then then_run (destroy_server stream) (\<lambda>_. ([], Returns 0)) else ([], Hangs)))"

subsection \<open>Laws\<close>

text \<open>What an event is for the server of theory Http\_Servers, and the events whose text is a null pointer.\<close>

fun seen_by_server :: "net_event \<Rightarrow> dyad_event list" where
  "seen_by_server (Connected_to data remote) = [Accepted remote]"
| "seen_by_server (Line_read st line) = [Line st line]"
| "seen_by_server _ = []"

fun null_data :: "net_event \<Rightarrow> bool" where
  "null_data (Connected_to data remote) = (data = None)"
| "null_data _ = False"

lemma dyad_prints:
  "dyad_print (LF # ''onAccept: %s'') [data_arg data] p =
     (case data of None \<Rightarrow> None
      | Some s \<Rightarrow> Some (p\<lparr>shown_text := shown_text p @ LF # ''onAccept: '' @ c_str s\<rparr>))"
  "dyad_print (''http://localhost:%d'' @ [LF]) [Int_arg port] p =
     Some (p\<lparr>shown_text := shown_text p @ ''http://localhost:'' @ dec_of_int port @ [LF]\<rparr>)"
  "dyad_print (LF # ''onLine: %s'') [Str_arg line] p =
     Some (p\<lparr>shown_text := shown_text p @ LF # ''onLine: '' @ c_str line\<rparr>)"
  "dyad_print (''%s %s'' @ [LF]) [Str_arg a, Str_arg path] p =
     Some (p\<lparr>shown_text := shown_text p @ c_str a @ '' '' @ c_str path @ [LF]\<rparr>)"
  "dyad_print (''here: %s %s %i'' @ [LF]) [Pointer_arg, Str_arg path, Ulong_arg n] p = None"
  "dyad_print (''server error: %s'' @ [LF]) [Str_arg msg] p =
     Some (p\<lparr>shown_text := shown_text p @ ''server error: '' @ c_str msg @ [LF]\<rparr>)"
  by (simp_all add: dyad_print_def printf_def data_arg_def split: option.splits)

lemmas handler_defs = accepts_def listens_def reads_line_def answers_get_def answers_put_def fails_def
  dyad_prints [simplified append.simps]

definition all_listening :: "dyad_server \<Rightarrow> bool" where
  "all_listening d = ({On_error, On_accept, On_listen} \<subseteq> server_listeners d)"

lemma dispatch_refines:
  assumes "all_listening (net p)"
  shows "map_option net (dispatch address p e) =
    (if null_data e then None else dyad_run (net p) (seen_by_server e))"
  using assms
  by (cases e) (auto simp: all_listening_def handler_defs on_line_def split: option.splits)

lemma listening_kept:
  "all_listening d \<Longrightarrow> dyad_run d es = Some d1 \<Longrightarrow> all_listening d1"
  by (induction d es rule: dyad_run.induct)
    (auto simp: all_listening_def on_accept_dyad_def on_line_def write_to_def elim!: dyad_step.elims
      split: Option.bind_splits option.splits if_splits)

lemma dyad_run_append: "dyad_run d (es @ fs) = Option.bind (dyad_run d es) (\<lambda>d1. dyad_run d1 fs)"
  by (induction d es rule: dyad_run.induct) (auto split: Option.bind_splits)

lemma updates_refine:
  assumes "all_listening (net p)"
  shows "map_option net (updates address p es) =
    (if list_ex null_data es then None else dyad_run (net p) (concat (map seen_by_server es)))"
  using assms
proof (induction es arbitrary: p)
  case (Cons e es)
  note step = dispatch_refines [OF Cons.prems, of address e]
  show ?case
  proof (cases "dispatch address p e")
    case None
    then show ?thesis using step by (auto simp: dyad_run_append split: if_splits)
  next
    case (Some q)
    then have "dyad_run (net p) (seen_by_server e) = Some (net q)" and "\<not> null_data e"
      using step by (auto split: if_splits)
    moreover have "all_listening (net q)"
      using listening_kept [OF Cons.prems] calculation by blast
    ultimately show ?thesis using Cons.IH [of q] Some by (simp add: dyad_run_append)
  qed
qed simp

lemma constructed: "all_listening (net construct_server)" "net construct_server = new_dyad_server"
  by (simp_all add: all_listening_def construct_server_def new_dyad_server_def)

text \<open>
  Whatever dyad reports, the streams and listeners of the program are what the server of theory Http\_Servers has after
  the same connections and lines, unless a connection is reported without data. The program ends only
  when all streams are gone, and then with status 0 only if \<^verbatim>\<open>delete\<close> may have the stream.
\<close>

lemma dyad_updates_server:
  "map_option net (updates address construct_server es) =
     (if list_ex null_data es then None
      else dyad_run new_dyad_server (concat (map seen_by_server es)))"
  using updates_refine [OF constructed(1), of address es] constructed(2) by simp

lemma dyad_main_returns:
  "(snd (dyad_main stream address es drained) = Returns status) =
     (status = 0 \<and> drained \<and> stream = From_new \<and> updates address construct_server es \<noteq> None)"
  by (auto simp: dyad_main_def destroy_server_def then_run_def split: option.splits origin.splits)

end
