(* ===== verification/Spec2Isabelle.thy ===== *)
theory Spec2Isabelle
  imports Echo_Server Async_Client Async_Client2 Http_Request Printf_Calls Proxy_Mongoose
    Echo_Session Http_Programs Server_Life Ocsp Valid_Ca Dht_Http Dht_Proxy
    Putget Dht_Client Pointer_Programs Http_Servers Aes_Tools Split_String
    Library_Programs Dyad_Server
begin

text \<open>
  The C++ programs of the repository (\<^verbatim>\<open>src/cpp\<close>): a model of each program that has logic of its
  own, and the theorems that say what it does.

  \<^bold>\<open>The repository.\<close> There is no single program: every file with a \<^verbatim>\<open>main\<close> is a small tool of its
  own, most of them network programs over asio, RESTinio, OpenDHT and GnuTLS. They are independent; what
  they share is their style: a state and handlers that a library calls back, library calls
  whose results are tested one after the other, loops that repeat a call.

  \<^bold>\<open>How the libraries appear.\<close> The libraries are not under \<^verbatim>\<open>src/\<close> and are never defined. What a call
  returns comes with the event, or is a field of a record (\<open>ocsp_env\<close>, \<open>tls_env\<close>,
  \<open>dht_lib\<close>, \<open>aes_lib\<close>) that the definitions take as an argument. What a library promises of its
  callbacks (only what was registered is called) is a predicate on state and event. The C++
  standard library is modelled as far as it is used.

  \<^bold>\<open>The library of the development.\<close>
  \<^item> \<open>Prelude\<close>: machine integers, C strings, error codes, the collections \<open>step_defs\<close> and \<open>inv_defs\<close>.
  \<^item> \<open>Cpp_Std\<close>: \<^verbatim>\<open>isspace\<close>, \<^verbatim>\<open>isdigit\<close>, \<^verbatim>\<open>to_string\<close>, \<^verbatim>\<open>atoi\<close>, \<^verbatim>\<open>stoul\<close>, conversion to 16 bits.
  \<^item> \<open>Printf\<close>: what \<^verbatim>\<open>printf\<close> makes of a format and its arguments, and a type system for the calls that is
    proved sound: a well-typed call has a result.
  \<^item> \<open>Event_Machine\<close>: runs of event-driven components; the locales \<open>event_machine\<close> (an invariant
    is kept), \<open>refined_machine\<close> (an abstract machine is implemented), \<open>bounded_machine\<close> (the
    events run out, and every run goes on to one after which none is possible).
  \<^item> \<open>Step_Machine\<close>: step relations and their reachable states; the locales \<open>step_machine\<close> (an
    invariant of every interleaving) and \<open>ending_machine\<close> (every state leads to a final one).
  \<^item> \<open>Program_Run\<close>: programs that print and may exit, hang or be undefined, composed in sequence.
  \<^item> \<open>Retry\<close>: the loop that repeats a call while its answer asks for it, a partial function; it
    returns exactly if some answer ends it.
  \<^item> \<open>Byte_Codec\<close>: encodings of fixed width (locale \<open>fixed_width_codec\<close>) and the two-digit
    hexadecimal one.
  \<^item> \<open>Cond_Wait\<close>: \<^verbatim>\<open>wait_for\<close> on a condition variable, as a step relation.
  \<^item> \<open>Memory\<close>: blocks of cells (locale \<open>block_memory\<close>) and their model.

  \<^bold>\<open>The components.\<close>
  \<^item> \<open>Echo_Server\<close> (\<^verbatim>\<open>async/nonblocking/server.cpp\<close> and the same file as \<^verbatim>\<open>async/nonblocking.cpp\<close>):
    \<^verbatim>\<open>Session\<close>, \<^verbatim>\<open>Connection\<close> with its two
    handlers, \<^verbatim>\<open>Server::accept\<close>, \<^verbatim>\<open>main\<close>. A connection refines a byte queue; the lemmas follow
    the bytes through every interleaving, and the server to any number of connections.
  \<^item> \<open>Async_Client\<close>, \<open>Async_Client2\<close>, \<open>Async_Connection\<close> (\<^verbatim>\<open>client.cpp\<close>, \<^verbatim>\<open>client2.cpp\<close>): the chains of
    callbacks. The calls that block inside a handler (\<^verbatim>\<open>asio::connect\<close>, \<^verbatim>\<open>asio::write\<close>, \<^verbatim>\<open>asio::read\<close>) are states of
    their own in the first and answers that may fail to come in the second; every run is bounded and ends or is
    inside such a call; requests precede responses, no callback is called twice. The class \<^verbatim>\<open>Connection\<close> of
    \<^verbatim>\<open>client2.cpp\<close> is given in detail, with its calls of \<^verbatim>\<open>printf\<close>.
  \<^item> \<open>Echo_Session\<close>: \<^verbatim>\<open>client.cpp\<close> connected with \<^verbatim>\<open>server.cpp\<close> by two byte streams; every interleaving
    ends with the client inside \<^verbatim>\<open>asio::read\<close>, its response collected and not shown.
  \<^item> \<open>Http_Request\<close>, \<open>Rest_Client\<close> (\<^verbatim>\<open>restinio/client.cpp\<close>, \<^verbatim>\<open>client_custom_http_methods.cpp\<close>): the request
    as text and a reader of HTTP messages it is proved against; the loop that feeds the parser, and the
    other one, whose rounds print an object and are undefined; the parser callbacks and both programs with their output.
  \<^item> \<open>Ocsp\<close> (\<^verbatim>\<open>crypto/gnutls/ocsp.cpp\<close>): every function and \<^verbatim>\<open>main\<close>, on every error path.
  \<^item> \<open>Valid_Ca\<close> (\<^verbatim>\<open>crypto/gnutls/valid_ca.cpp\<close>): both macros, the handshake loop, \<^verbatim>\<open>main\<close>.
  \<^item> \<open>Dht_Http\<close>, \<open>Http_Programs\<close> (\<^verbatim>\<open>opendht/http.cpp\<close>, \<^verbatim>\<open>http_errors.cpp\<close>, \<^verbatim>\<open>https_2waystls.cpp\<close>): request
    set-up, callbacks, \<^verbatim>\<open>loadFile\<close>; the three mains from their command lines to their exit status.
  \<^item> \<open>Dht_Proxy\<close> (\<^verbatim>\<open>opendht/dhtproxyserver/proxy_restinio.cpp\<close>, \<^verbatim>\<open>.h\<close>): router, handlers, callbacks
    of the node, the exceptions of \<^verbatim>\<open>put\<close> on JSON that makes no value; an invariant on what was put on the wire for each request.
  \<^item> \<open>Server_Life\<close>: the threads of that proxy and of \<^verbatim>\<open>restinio/server_reply_by_parts.cpp\<close>, from
    the constructor on; whether an exception leaves the context stopped is left to the library.
  \<^item> \<open>Proxy_Mongoose\<close> (\<^verbatim>\<open>proxy_cpr.cpp\<close>, \<^verbatim>\<open>.h\<close>): the two threads, their mutex and condition variable.
  \<^item> \<open>Putget\<close>, \<open>Dht_Client\<close> (\<^verbatim>\<open>opendht/putget.cpp\<close>, \<^verbatim>\<open>dhtclient.cpp\<close>): two threads as a step relation;
    reachable states, invariants by rule induction, runs that show lost wake-ups.
  \<^item> \<open>Dht_Async\<close> (\<^verbatim>\<open>opendht/dhtclient_async.cpp\<close>, \<^verbatim>\<open>future-get.cpp\<close>): the calls of the program, the
    callbacks the node makes of them, the promise and the future.
  \<^item> \<open>Pointer_Programs\<close> (\<^verbatim>\<open>pointers.cpp\<close>, \<^verbatim>\<open>arrays.cpp\<close>, \<^verbatim>\<open>array_2d.cpp\<close>): over \<open>Memory\<close>; what
    is printed, and which blocks are left.
  \<^item> \<open>Http_Servers\<close>, \<open>Dyad_Server\<close> (\<^verbatim>\<open>server/httpserver_dyad.cpp\<close>, \<^verbatim>\<open>proxy_pistache.cpp\<close>,
    \<^verbatim>\<open>restinio/server_reply_by_parts.cpp\<close>): the handlers; the dyad program with its output and its end, where
    what \<^verbatim>\<open>delete\<close> makes of the stream depends on the library.
  \<^item> \<open>Aes_Tools\<close> (\<^verbatim>\<open>crypto/aes\<close>), \<open>Split_String\<close>, \<open>Small_Programs\<close> (\<^verbatim>\<open>opendht/crypto.cpp\<close>,
    \<^verbatim>\<open>jami/namedir.cpp\<close>, \<^verbatim>\<open>stdout_redirect.cpp\<close>, \<^verbatim>\<open>list_files.cpp\<close>, \<^verbatim>\<open>graph/enum_map.cpp\<close>).
  \<^item> \<open>Library_Programs\<close>: programs that are little more than calls of a library (\<^verbatim>\<open>glfw_cb_context.cpp\<close>, the
    pistache proxy, the hello servers, \<^verbatim>\<open>proxy_runner.cpp\<close>, \<^verbatim>\<open>main\<close> of \<^verbatim>\<open>enum_map.cpp\<close>).
  \<^item> \<open>Printf_Calls\<close>: every call of \<^verbatim>\<open>printf\<close> under \<^verbatim>\<open>cpp/\<close>, a table per file, typed: which calls are ill typed and
    which are undefined; the calls that the models make are calls of the tables.

  \<^bold>\<open>Bounds and endings.\<close> No fuel is used. Loops over lists and strings are structural or have a
  measure (\<open>word_loop\<close>: the unread characters); a loop that repeats a library call is \<open>poll\<close>,
  whose value \<open>None\<close> is the loop that does not end; a run of an event-driven program is the list of
  its events. Integers whose width matters are words: the 16-bit port, the 8-bit counter of
  \<open>putget.cpp\<close>, the thread count, the 64-bit request count.

  \<^bold>\<open>Undefined behaviour\<close> is a value of its own: \<open>Undefined_behaviour\<close> or \<open>Undefined\<close>, or no
  result at all for memory and \<open>on_line\<close>.

  \<^bold>\<open>Not modelled\<close>: time, except as a limit that may pass at any moment; informative output of the
  echo programs and of the two-dimensional array where it only shows an input or an address; the class \<^verbatim>\<open>SomeClass\<close> of
  \<^verbatim>\<open>pointers.cpp\<close> and the enumerations of \<^verbatim>\<open>namedir.cpp\<close>, which are declared and not used; includes, type
  definitions and declarations of members; the files in other languages.

  \<^bold>\<open>Plan\<close>: the running time of the waits of \<^verbatim>\<open>putget.cpp\<close> and \<^verbatim>\<open>dhtclient.cpp\<close>; the session of client and echo server with
  several connections at a time; the graphs of \<^verbatim>\<open>enum_map.cpp\<close> if Boost's subgraphs become part of the sources.
\<close>

end
